theory Spec2Isabelle
  imports Complex_Main "HOL-Library.Multiset"
begin

section \<open>Events and exceptions\<close>

text \<open>
  A log entry is a Python dictionary. The raw entries returned by the provider-side filter
  and the decoded ("rich") logs of a transaction receipt are read through the same keys
  (\<^verbatim>\<open>blockNumber\<close>, \<^verbatim>\<open>logIndex\<close>, \<^verbatim>\<open>transactionHash\<close>, \<^verbatim>\<open>topics\<close>,
  \<^verbatim>\<open>event\<close>, \<^verbatim>\<open>args\<close>), so one record models both. The \<^verbatim>\<open>args\<close> dictionary of a decoded
  log carries the fields fixed by the contract ABI.
\<close>

record event_args =
  amount :: int
  ledger :: string
  rewards :: int
  losses :: int
  balance :: int

record event =
  blockNumber :: int
  logIndex :: int
  transactionHash :: string
  topics :: "string list"
  event_name :: string
  args :: event_args

text \<open>
  The exceptions the scanning code distinguishes. A \<^verbatim>\<open>ValueError\<close> raised by the provider
  carries the JSON-RPC error dictionaries as its \<^verbatim>\<open>args\<close> tuple.
  \<^verbatim>\<open>AsyncioTimeoutError\<close> is \<^verbatim>\<open>asyncio.exceptions.TimeoutError\<close>, a class of its own,
  not a member of \<^verbatim>\<open>EXPECTED_NETWORK_EXCEPTIONS\<close>.
\<close>

datatype exn =
    AsyncioTimeoutError
  | ValueError "(string \<times> string) list list"
  | AssertionError
  | IndexError
  | KeyError
  | OverflowError
  | ExpectedNetworkException
  | UnexpectedException

text \<open>
  The test both \<^verbatim>\<open>get_all_entries\<close> and \<^verbatim>\<open>_run\<close> apply to a caught exception:
  \<^verbatim>\<open>isinstance(exc, asyncio.exceptions.TimeoutError) or isinstance(exc, ValueError) and exc.args
  and 'message' in exc.args[0] and exc.args[0]['message'] == 'query returned more than 10000 results'\<close>.
\<close>

fun range_too_big :: "exn \<Rightarrow> bool" where
  "range_too_big AsyncioTimeoutError = True"
| "range_too_big (ValueError []) = False"
| "range_too_big (ValueError (a # _)) =
     (map_of a ''message'' = Some ''query returned more than 10000 results'')"
| "range_too_big _ = False"

section \<open>Locating a decoded log: \<^verbatim>\<open>ContractsReader.find_log\<close>\<close>

text \<open>
  \<^verbatim>\<open>for index, log in enumerate(logs): if log_index == log.get('logIndex'): return index\<close>,
  then \<^verbatim>\<open>return 0\<close>. The first argument of the loop is the value of \<^verbatim>\<open>index\<close>.
\<close>

fun find_log_enumerate :: "nat \<Rightarrow> event list \<Rightarrow> int \<Rightarrow> nat" where
  "find_log_enumerate index [] log_index = 0"
| "find_log_enumerate index (lg # logs) log_index =
     (if log_index = logIndex lg then index
      else find_log_enumerate (Suc index) logs log_index)"

definition find_log :: "event list \<Rightarrow> int \<Rightarrow> nat" where
  "find_log logs log_index = find_log_enumerate 0 logs log_index"

text \<open>
  The classifier's \<^verbatim>\<open>rich_logs[self.find_log(rich_logs, log_index)]\<close>: indexing a tuple
  out of range raises \<^verbatim>\<open>IndexError\<close>.
\<close>

definition select_log :: "event list \<Rightarrow> int \<Rightarrow> exn + event" where
  "select_log rich_logs log_index =
     (let i = find_log rich_logs log_index
      in if i < length rich_logs then Inr (rich_logs ! i) else Inl IndexError)"

section \<open>The event filter: \<^verbatim>\<open>ContractEventFilter\<close>\<close>

text \<open>
  The fields of the filter object. \<open>provider_filter\<close> stands for \<^verbatim>\<open>self.filter\<close>, the
  provider-side handle: it remembers the range it was installed with.
\<close>

record contract_event_filter =
  from_block :: int
  to_block :: int
  uninstalled :: bool
  provider_filter :: "int \<times> int"

definition init_filter :: "contract_event_filter \<Rightarrow> contract_event_filter" where
  "init_filter f = f\<lparr>provider_filter := (from_block f, to_block f), uninstalled := False\<rparr>"

text \<open>
  \<^verbatim>\<open>uninstall\<close> sets the flag and asks the provider to drop the handle; a \<^verbatim>\<open>ValueError\<close>
  of that request is logged and swallowed.
\<close>

definition uninstall :: "contract_event_filter \<Rightarrow> contract_event_filter" where
  "uninstall f = f\<lparr>uninstalled := True\<rparr>"

text \<open>The constructor, with its assertion on the range.\<close>

definition new_filter :: "int \<Rightarrow> int \<Rightarrow> exn + contract_event_filter" where
  "new_filter fb tb =
     (if fb \<le> tb
      then Inr (init_filter
        \<lparr>from_block = fb, to_block = tb, uninstalled = False, provider_filter = (fb, tb)\<rparr>)
      else Inl AssertionError)"

definition update_filter_range :: "int \<Rightarrow> int \<Rightarrow> contract_event_filter \<Rightarrow> contract_event_filter" where
  "update_filter_range fb tb f =
     (let f1 = (if \<not> uninstalled f then uninstall f else f)
      in init_filter (f1\<lparr>from_block := fb, to_block := tb\<rparr>))"

text \<open>
  What the provider answers to the successive \<^verbatim>\<open>self.filter.get_all_entries()\<close> requests
  of one call: the entries, or the exception raised. The loop \<^verbatim>\<open>for _ in range(2)\<close> is
  \<open>fetch_entries\<close>, counting the attempts left; it yields the entries and the filter,
  or the exception that leaves the method. When both attempts fail with an exception that
  is caught and is not the range signal, \<^verbatim>\<open>entries\<close> keeps its initial value \<^verbatim>\<open>[]\<close>.
\<close>

type_synonym provider = "nat \<Rightarrow> exn + event list"

fun caught_by_fetch :: "exn \<Rightarrow> bool" where
  "caught_by_fetch AsyncioTimeoutError = True"
| "caught_by_fetch (ValueError _) = True"
| "caught_by_fetch _ = False"

fun fetch_entries ::
  "nat \<Rightarrow> nat \<Rightarrow> provider \<Rightarrow> contract_event_filter \<Rightarrow> (exn + event list) \<times> contract_event_filter" where
  "fetch_entries 0 i p f = (Inr [], f)"
| "fetch_entries (Suc n) i p f =
     (case p i of
        Inr entries \<Rightarrow> (Inr entries, f)
      | Inl exc \<Rightarrow>
          if caught_by_fetch exc
          then (if range_too_big exc then (Inl exc, uninstall f)
                else fetch_entries n (Suc i) p (init_filter f))
          else (Inl exc, f))"

definition get_all_entries ::
  "provider \<Rightarrow> contract_event_filter \<Rightarrow> (exn + event list) \<times> contract_event_filter" where
  "get_all_entries p f =
     (let f0 = (if uninstalled f then init_filter f else f)
      in case fetch_entries 2 0 p f0 of
           (Inl exc, f1) \<Rightarrow> (Inl exc, f1)
         | (Inr entries, f1) \<Rightarrow>
             (let sorted_events = sort_key blockNumber entries;
                  f2 = uninstall f1
              in if sorted_events \<noteq> []
                 then (let fb = blockNumber (last sorted_events) + 1;
                           f3 = f2\<lparr>from_block := fb\<rparr>
                       in (Inr sorted_events,
                           if fb > to_block f3 then f3\<lparr>to_block := fb\<rparr> else f3))
                 else (Inr sorted_events, f2)))"

section \<open>Dictionaries\<close>

text \<open>
  A Python dictionary keeps its keys in insertion order, and the scanning code iterates
  over dictionaries, so a dictionary is an association list with distinct keys.
  \<open>setitem\<close> is \<^verbatim>\<open>d[k] = v\<close>, \<open>getitem\<close> is \<^verbatim>\<open>d[k]\<close> (which raises
  \<^verbatim>\<open>KeyError\<close>) and \<open>dict_append\<close> is \<^verbatim>\<open>d[k].append(x)\<close> for a key that is present.
\<close>

fun setitem :: "'k \<Rightarrow> 'v \<Rightarrow> ('k \<times> 'v) list \<Rightarrow> ('k \<times> 'v) list" where
  "setitem k v [] = [(k, v)]"
| "setitem k v ((k', v') # d) = (if k' = k then (k, v) # d else (k', v') # setitem k v d)"

definition getitem :: "('k \<times> 'v) list \<Rightarrow> 'k \<Rightarrow> exn + 'v" where
  "getitem d k = (case map_of d k of None \<Rightarrow> Inl KeyError | Some v \<Rightarrow> Inr v)"

definition dict_append :: "'k \<Rightarrow> 'a \<Rightarrow> ('k \<times> 'a list) list \<Rightarrow> ('k \<times> 'a list) list" where
  "dict_append k x d = map (\<lambda>(k', xs). if k' = k then (k', xs @ [x]) else (k', xs)) d"

section \<open>Grouping events by block: \<^verbatim>\<open>utils.distribute_events_by_blocks\<close>\<close>

text \<open>
  The body of the inner loop: a block number seen for the first time gets a fresh group
  with every key of \<^verbatim>\<open>events\<close> and is inserted after the block numbers already there;
  then the event is appended under its key.
\<close>

definition distribute_event ::
  "string list \<Rightarrow> string \<Rightarrow> event \<Rightarrow> (int \<times> (string \<times> event list) list) list
     \<Rightarrow> (int \<times> (string \<times> event list) list) list" where
  "distribute_event keys key ev distributed_events =
     (let block_number = blockNumber ev;
          d = (if block_number \<notin> set (map fst distributed_events)
               then distributed_events @ [(block_number, map (\<lambda>k. (k, [])) keys)]
               else distributed_events)
      in map (\<lambda>(b, grp). if b = block_number then (b, dict_append key ev grp) else (b, grp)) d)"

definition distribute_events_by_blocks ::
  "(string \<times> event list) list \<Rightarrow> (int \<times> (string \<times> event list) list) list" where
  "distribute_events_by_blocks events =
     fold (\<lambda>(key, evs) d. fold (distribute_event (map fst events) key) evs d) events []"

section \<open>APR: \<^verbatim>\<open>utils.calculate_apr\<close>\<close>

text \<open>
  A row of the \<^verbatim>\<open>reward\<close> table is the tuple (ledger, reward, balance, block);
  \<^verbatim>\<open>reward[1]\<close> is the signed amount and \<^verbatim>\<open>reward[2]\<close> the balance. Python computes
  the rate in decimal or binary floating point, depending on the column types; the model
  computes in exact rationals, and \<^verbatim>\<open>float(total_apr)\<close> is the identity.
\<close>

type_synonym reward_row = "string \<times> int \<times> int \<times> int"

definition DAYS_IN_YEAR :: rat where
  "DAYS_IN_YEAR = 365"

definition entry_apr :: "int \<Rightarrow> reward_row \<Rightarrow> rat" where
  "entry_apr eras_per_day reward =
     (let denominator = fst (snd (snd reward)) - fst (snd reward)
      in if denominator \<noteq> 0
         then of_int (fst (snd reward)) / of_int denominator * of_int eras_per_day * DAYS_IN_YEAR
         else 0)"

text \<open>The inner loop, with the list \<^verbatim>\<open>apr[ledger]\<close> as accumulator.\<close>

fun ledger_aprs :: "int \<Rightarrow> rat \<Rightarrow> rat \<Rightarrow> reward_row list \<Rightarrow> rat list \<Rightarrow> rat list" where
  "ledger_aprs eras_per_day apr_min apr_max [] acc = acc"
| "ledger_aprs eras_per_day apr_min apr_max (reward # rs) acc =
     (let a = entry_apr eras_per_day reward
      in if a < apr_min \<or> a > apr_max
         then ledger_aprs eras_per_day apr_min apr_max rs acc
         else ledger_aprs eras_per_day apr_min apr_max rs (acc @ [a]))"

definition apr_by_ledger ::
  "(string \<times> reward_row list) list \<Rightarrow> int \<Rightarrow> rat \<Rightarrow> rat \<Rightarrow> (string \<times> rat list) list" where
  "apr_by_ledger rewards_dict eras_per_day apr_min apr_max =
     fold (\<lambda>(l, rs) d. setitem l (ledger_aprs eras_per_day apr_min apr_max rs []) d)
       rewards_dict []"

definition averaged_apr :: "(string \<times> rat list) list \<Rightarrow> (string \<times> rat) list" where
  "averaged_apr d =
     fold (\<lambda>(l, v) av.
             if v = [] then av else setitem l (sum_list v / of_nat (length v)) av)
       d []"

definition calculate_apr ::
  "rat \<Rightarrow> (string \<times> reward_row list) list \<Rightarrow> int \<Rightarrow> rat \<Rightarrow> rat \<Rightarrow> rat" where
  "calculate_apr total_apr rewards_dict eras_per_day apr_min apr_max =
     (let av = averaged_apr (apr_by_ledger rewards_dict eras_per_day apr_min apr_max)
      in if av \<noteq> [] then sum_list (map snd av) / of_nat (length av) else total_apr)"

section \<open>Shrinking the window: \<^verbatim>\<open>utils.decrease_range_of_blocks\<close>\<close>

text \<open>
  \<^verbatim>\<open>int(range_current * coefficient)\<close> is computed in binary64: the integer is converted
  to the nearest double (\<^verbatim>\<open>OverflowError\<close> when it is too large), the product of the two
  doubles is rounded to the nearest double, ties to even, and \<^verbatim>\<open>int\<close> truncates towards
  zero. A double is modelled by the rational number it denotes: \<open>to_binary64\<close> rounds a
  rational to 53 significant bits, the exponent \<open>binade x\<close> being the one with
  \<open>2 ^ binade x \<le> x < 2 ^ (binade x + 1)\<close>, not below the subnormal exponent.
\<close>

fun bit_length :: "nat \<Rightarrow> nat" where
  "bit_length n = (if n = 0 then 0 else Suc (bit_length (n div 2)))"

declare bit_length.simps [simp del]

definition pow2 :: "int \<Rightarrow> rat" where
  "pow2 e = (if 0 \<le> e then 2 ^ nat e else 1 / 2 ^ nat (- e))"

definition binade :: "rat \<Rightarrow> int" where
  "binade x =
     (if 1 \<le> x then int (bit_length (nat \<lfloor>x\<rfloor>)) - 1
      else - int (bit_length (nat \<lceil>1 / x\<rceil> - 1)))"

definition round_half_even :: "rat \<Rightarrow> int" where
  "round_half_even y =
     (let n = \<lfloor>y\<rfloor>; r = y - of_int n
      in if r < 1 / 2 then n else if r > 1 / 2 then n + 1 else if even n then n else n + 1)"

definition to_binary64 :: "rat \<Rightarrow> rat" where
  "to_binary64 x =
     (if x = 0 then 0
      else (let ulp = pow2 (max (binade \<bar>x\<bar>) (- 1022) - 52)
            in sgn x * of_int (round_half_even (\<bar>x\<bar> / ulp)) * ulp))"

definition float_of_int :: "int \<Rightarrow> exn + rat" where
  "float_of_int n =
     (let x = to_binary64 (of_int n)
      in if \<bar>x\<bar> < pow2 1024 then Inr x else Inl OverflowError)"

definition int_of_float :: "rat \<Rightarrow> int" where
  "int_of_float x = (if 0 \<le> x then \<lfloor>x\<rfloor> else \<lceil>x\<rceil>)"

text \<open>The literal \<^verbatim>\<open>0.1\<close> is the double nearest to one tenth.\<close>

definition coefficient :: rat where
  "coefficient = to_binary64 (1 / 10)"

definition decrease_range_of_blocks :: "int \<Rightarrow> exn + int" where
  "decrease_range_of_blocks range_current =
     (case float_of_int range_current of
        Inl exc \<Rightarrow> Inl exc
      | Inr x \<Rightarrow>
          (let range_new = max (range_current - int_of_float (to_binary64 (x * coefficient))) 1
           in Inr (if range_new = range_current \<and> range_new > 1 then range_new - 1
                   else range_new)))"

text \<open>
  The window after \<open>n\<close> consecutive cycles that each end with the range signal: every such
  cycle replaces the window by \<^verbatim>\<open>decrease_range_of_blocks\<close> of it.
\<close>

fun decrease_repeatedly :: "nat \<Rightarrow> int \<Rightarrow> exn + int" where
  "decrease_repeatedly 0 w = Inr w"
| "decrease_repeatedly (Suc n) w =
     (case decrease_range_of_blocks w of
        Inl exc \<Rightarrow> Inl exc
      | Inr w' \<Rightarrow> decrease_repeatedly n w')"

section \<open>Classifying events: \<^verbatim>\<open>ContractsReader\<close>\<close>

record contracts_reader =
  nimbus_event_filter :: "contract_event_filter option"
  deposited_event_hash :: string
  losses_event_hash :: string
  redeemed_event_hash :: string
  rewards_event_hash :: string
  transfer_event_hash :: string

text \<open>
  What the chain answers during one cycle: the block number of the finalised head, the
  provider's answers to the filter requests, the receipt of a transaction (given as the
  tuple of decoded logs that \<^verbatim>\<open>processReceipt(tx_receipt, errors=DISCARD)\<close> yields for
  each event name), and the result of the contract call \<^verbatim>\<open>getLedgerAddresses\<close>. Each
  request may raise instead.
\<close>

record chain =
  finalised_head :: "exn + int"
  filter_logs :: provider
  transaction_receipt :: "string \<Rightarrow> exn + (string \<Rightarrow> event list)"
  nimbus_ledger_addresses :: "exn + string list"

definition empty_events :: "(string \<times> event list) list" where
  "empty_events =
     [(''Deposited'', []), (''Losses'', []), (''Redeemed'', []), (''Rewards'', []),
      (''Transfer'', [])]"

definition append_rich_log ::
  "string \<Rightarrow> (string \<Rightarrow> event list) \<Rightarrow> int \<Rightarrow> (string \<times> event list) list
     \<Rightarrow> exn + (string \<times> event list) list" where
  "append_rich_log name tx_receipt log_index events =
     (case select_log (tx_receipt name) log_index of
        Inl exc \<Rightarrow> Inl exc
      | Inr l \<Rightarrow> Inr (dict_append name l events))"

text \<open>The loop \<^verbatim>\<open>for topic in topics\<close>; every matching branch ends with \<^verbatim>\<open>break\<close>.\<close>

fun classify_topics ::
  "contracts_reader \<Rightarrow> (string \<Rightarrow> event list) \<Rightarrow> event \<Rightarrow> string list
     \<Rightarrow> (string \<times> event list) list \<Rightarrow> exn + (string \<times> event list) list" where
  "classify_topics cr tx_receipt ev [] events = Inr events"
| "classify_topics cr tx_receipt ev (topic # ts) events =
     (if topic = deposited_event_hash cr
      then append_rich_log ''Deposited'' tx_receipt (logIndex ev) events
      else if topic = losses_event_hash cr
      then append_rich_log ''Losses'' tx_receipt (logIndex ev) events
      else if topic = redeemed_event_hash cr
      then append_rich_log ''Redeemed'' tx_receipt (logIndex ev) events
      else if topic = rewards_event_hash cr
      then append_rich_log ''Rewards'' tx_receipt (logIndex ev) events
      else if topic = transfer_event_hash cr
      then Inr (dict_append ''Transfer'' ev events)
      else classify_topics cr tx_receipt ev ts events)"

text \<open>The loop \<^verbatim>\<open>for event in events_mixed\<close>.\<close>

fun classify_events ::
  "contracts_reader \<Rightarrow> chain \<Rightarrow> event list \<Rightarrow> (string \<times> event list) list
     \<Rightarrow> exn + (string \<times> event list) list" where
  "classify_events cr c [] events = Inr events"
| "classify_events cr c (ev # rest) events =
     (case transaction_receipt c (transactionHash ev) of
        Inl exc \<Rightarrow> Inl exc
      | Inr tx_receipt \<Rightarrow>
          (case classify_topics cr tx_receipt ev (topics ev) events of
             Inl exc \<Rightarrow> Inl exc
           | Inr events' \<Rightarrow> classify_events cr c rest events'))"

definition distribute_events ::
  "contracts_reader \<Rightarrow> chain \<Rightarrow> event list \<Rightarrow> exn + (string \<times> event list) list" where
  "distribute_events cr c events_mixed =
     (if events_mixed = [] then Inr [] else classify_events cr c events_mixed empty_events)"

text \<open>
  \<^verbatim>\<open>get_nimbus_events\<close>: the filter is created on the first call and its range updated on
  every later one. The reader keeps the filter object whatever happens afterwards.
\<close>

definition get_nimbus_events ::
  "chain \<Rightarrow> int \<Rightarrow> int \<Rightarrow> contracts_reader
     \<Rightarrow> (exn + (string \<times> event list) list) \<times> contracts_reader" where
  "get_nimbus_events c fb tb cr =
     (case (case nimbus_event_filter cr of
              Some f \<Rightarrow> Inr (update_filter_range fb tb f)
            | None \<Rightarrow> new_filter fb tb) of
        Inl exc \<Rightarrow> (Inl exc, cr)
      | Inr f \<Rightarrow>
          (case get_all_entries (filter_logs c) f of
             (Inl exc, f') \<Rightarrow> (Inl exc, cr\<lparr>nimbus_event_filter := Some f'\<rparr>)
           | (Inr events_mixed, f') \<Rightarrow>
               (distribute_events cr c events_mixed, cr\<lparr>nimbus_event_filter := Some f'\<rparr>)))"

section \<open>The datastore: \<^verbatim>\<open>DatabaseManager\<close>\<close>

text \<open>
  The tables the scanner uses: the single-row \<^verbatim>\<open>aggregated_data\<close> (rewritten by delete and
  insert), the append-only \<^verbatim>\<open>reward\<close>, \<^verbatim>\<open>holder\<close> with its primary key, and the columns
  \<^verbatim>\<open>apr\<close>, \<^verbatim>\<open>total_rewards\<close>, \<^verbatim>\<open>total_losses\<close> of \<^verbatim>\<open>api\<close>. Every method of the manager
  catches the errors of its statement, so no method raises; the model takes each statement
  to succeed, except the insert of a holder that is already there.
\<close>

record database =
  aggregated_data :: "(int \<times> int \<times> int \<times> int \<times> int) option"
  reward :: "reward_row list"
  holder :: "string list"
  api :: "rat \<times> int \<times> int"

definition update_aggregated_data :: "int \<times> int \<times> int \<times> int \<times> int \<Rightarrow> database \<Rightarrow> database" where
  "update_aggregated_data entry db = db\<lparr>aggregated_data := Some entry\<rparr>"

definition add_reward :: "string \<Rightarrow> int \<Rightarrow> int \<Rightarrow> int \<Rightarrow> database \<Rightarrow> database" where
  "add_reward l r b block_number db = db\<lparr>reward := reward db @ [(l, r, b, block_number)]\<rparr>"

text \<open>
  \<^verbatim>\<open>SELECT * FROM reward WHERE ledger = %s ORDER BY block DESC LIMIT %s\<close>; rows of the
  same block are taken in table order.
\<close>

definition get_rewards :: "string \<Rightarrow> int \<Rightarrow> database \<Rightarrow> reward_row list" where
  "get_rewards l limit db =
     take (nat limit)
       (sort_key (\<lambda>row. - snd (snd (snd row))) (filter (\<lambda>row. fst row = l) (reward db)))"

definition add_holder :: "string \<Rightarrow> database \<Rightarrow> database" where
  "add_holder h db = (if h \<in> set (holder db) then db else db\<lparr>holder := holder db @ [h]\<rparr>)"

definition get_holders_number :: "database \<Rightarrow> int" where
  "get_holders_number db = int (length (holder db))"

definition update_api_table :: "rat \<Rightarrow> int \<Rightarrow> int \<Rightarrow> database \<Rightarrow> database" where
  "update_api_table a total_rewards total_losses db = db\<lparr>api := (a, total_rewards, total_losses)\<rparr>"

section \<open>The aggregator: \<^verbatim>\<open>AggregatedMetricsExporter\<close>\<close>

record service_parameters =
  max_range_of_blocks :: int
  eras_per_day :: int
  apr_min :: rat
  apr_max :: rat
  database_query_limit :: int

text \<open>
  The fields of the exporter thread. \<open>reconnections\<close> is not a field of the source: it
  counts the runs of \<^verbatim>\<open>restore_connection_to_parachain\<close>, which changes nothing else that
  the model holds. The gauges of the metrics registry repeat the fields and are left out.
\<close>

record exporter =
  apr :: rat
  deposited :: int
  deposited_events_num :: int
  holders_number :: int
  last_block_number_with_events :: int
  losses :: int
  redeemed :: int
  redeemed_events_num :: int
  rewards :: int
  stop :: bool
  contracts_reader :: contracts_reader
  database_manager :: database
  service_params :: service_parameters
  reconnections :: nat

text \<open>
  A method that may raise returns the exception or its value, and with either the
  exporter as the method left it: what was folded before an exception stays folded.
\<close>

definition process_deposited_and_redeemed_events ::
  "(string \<times> event list) list \<Rightarrow> exporter \<Rightarrow> (exn + unit) \<times> exporter" where
  "process_deposited_and_redeemed_events events s =
     (case getitem events ''Deposited'' of
        Inl exc \<Rightarrow> (Inl exc, s)
      | Inr dep \<Rightarrow>
          (case getitem events ''Redeemed'' of
             Inl exc \<Rightarrow> (Inl exc, s)
           | Inr red \<Rightarrow>
               (let s1 = s\<lparr>deposited_events_num := deposited_events_num s + int (length dep)\<rparr>;
                    s2 = s1\<lparr>redeemed_events_num := redeemed_events_num s1 + int (length red)\<rparr>;
                    s3 = s2\<lparr>deposited := fold (\<lambda>ev d. d + amount (args ev)) dep (deposited s2)\<rparr>;
                    s4 = s3\<lparr>redeemed := fold (\<lambda>ev d. d + amount (args ev)) red (redeemed s3)\<rparr>
                in (Inr (), s4))))"

text \<open>
  \<^verbatim>\<open>_process_rewards_and_losses_events\<close>: the list \<^verbatim>\<open>rewards\<close> of (ledger, reward, balance)
  is the accumulator.
\<close>

fun process_rewards_and_losses_events ::
  "event list \<Rightarrow> (string \<times> int \<times> int) list \<Rightarrow> exporter
     \<Rightarrow> (string \<times> int \<times> int) list \<times> exporter" where
  "process_rewards_and_losses_events [] acc s = (acc, s)"
| "process_rewards_and_losses_events (ev # evs) acc s =
     (if event_name ev = ''Rewards''
      then process_rewards_and_losses_events evs
             (acc @ [(ledger (args ev), event_args.rewards (args ev), balance (args ev))])
             (s\<lparr>rewards := rewards s + event_args.rewards (args ev)\<rparr>)
      else process_rewards_and_losses_events evs
             (acc @ [(ledger (args ev), - event_args.losses (args ev), balance (args ev))])
             (s\<lparr>losses := losses s + event_args.losses (args ev)\<rparr>))"

text \<open>
  \<^verbatim>\<open>_process_transfer_events\<close>: a topic is held as the string \<^verbatim>\<open>.hex()\<close> gives, and
  \<^verbatim>\<open>topics[2]\<close> raises \<^verbatim>\<open>IndexError\<close> on a log with fewer than three topics.
\<close>

fun add_receivers :: "event list \<Rightarrow> database \<Rightarrow> (exn + unit) \<times> database" where
  "add_receivers [] db = (Inr (), db)"
| "add_receivers (transfer_event # evs) db =
     (if 2 < length (topics transfer_event)
      then add_receivers evs (add_holder (''0x'' @ drop 26 (topics transfer_event ! 2)) db)
      else (Inl IndexError, db))"

definition process_transfer_events ::
  "(string \<times> event list) list \<Rightarrow> exporter \<Rightarrow> (exn + unit) \<times> exporter" where
  "process_transfer_events events s =
     (case getitem events ''Transfer'' of
        Inl exc \<Rightarrow> (Inl exc, s)
      | Inr transfers \<Rightarrow>
          (case add_receivers transfers (database_manager s) of
             (Inl exc, db) \<Rightarrow> (Inl exc, s\<lparr>database_manager := db\<rparr>)
           | (Inr u, db) \<Rightarrow>
               (Inr (), s\<lparr>database_manager := db, holders_number := get_holders_number db\<rparr>)))"

text \<open>The rewards read back for the APR: one entry per ledger address that has rows.\<close>

definition rewards_of_ledgers :: "string list \<Rightarrow> int \<Rightarrow> database \<Rightarrow> (string \<times> reward_row list) list" where
  "rewards_of_ledgers ledger_addresses limit db =
     fold (\<lambda>l d. let ledger_rewards = get_rewards l limit db
                  in if ledger_rewards \<noteq> [] then setitem l ledger_rewards d else d)
       ledger_addresses []"

text \<open>The body of the loop over \<^verbatim>\<open>distributed_events.items()\<close>.\<close>

definition process_block ::
  "chain \<Rightarrow> int \<Rightarrow> (string \<times> event list) list \<Rightarrow> exporter \<Rightarrow> (exn + unit) \<times> exporter" where
  "process_block c block_number events s =
     (case process_deposited_and_redeemed_events events s of
        (Inl exc, s1) \<Rightarrow> (Inl exc, s1)
      | (Inr u, s1) \<Rightarrow>
     (case getitem events ''Rewards'' of
        Inl exc \<Rightarrow> (Inl exc, s1)
      | Inr rs \<Rightarrow>
     (case getitem events ''Losses'' of
        Inl exc \<Rightarrow> (Inl exc, s1)
      | Inr ls \<Rightarrow>
     (case process_rewards_and_losses_events (rs @ ls) [] s1 of
        (new_rewards, s2) \<Rightarrow>
     (case process_transfer_events events s2 of
        (Inl exc, s3) \<Rightarrow> (Inl exc, s3)
      | (Inr u, s3) \<Rightarrow>
          (let entry = (deposited s3, deposited_events_num s3, redeemed s3,
                        redeemed_events_num s3, block_number);
               db1 = update_aggregated_data entry (database_manager s3);
               db2 = fold (\<lambda>(l, r, b) db. add_reward l r b block_number db) new_rewards db1;
               s4 = s3\<lparr>database_manager := db2\<rparr>
           in case nimbus_ledger_addresses c of
                Inl exc \<Rightarrow> (Inl exc, s4)
              | Inr ledger_addresses \<Rightarrow>
                  (let p = service_params s4;
                       rewards_dict =
                         rewards_of_ledgers (remdups ledger_addresses) (database_query_limit p) db2;
                       s5 = s4\<lparr>apr := calculate_apr (apr s4) rewards_dict (eras_per_day p)
                                         (apr_min p) (apr_max p)\<rparr>
                   in (Inr (), s5\<lparr>last_block_number_with_events := block_number\<rparr>))))))))"

fun process_blocks ::
  "chain \<Rightarrow> (int \<times> (string \<times> event list) list) list \<Rightarrow> exporter \<Rightarrow> (exn + unit) \<times> exporter" where
  "process_blocks c [] s = (Inr (), s)"
| "process_blocks c ((block_number, events) # rest) s =
     (case process_block c block_number events s of
        (Inl exc, s') \<Rightarrow> (Inl exc, s')
      | (Inr u, s') \<Rightarrow> process_blocks c rest s')"

definition get_and_process_aggregated_data ::
  "chain \<Rightarrow> int \<Rightarrow> int \<Rightarrow> exporter \<Rightarrow> (exn + int) \<times> exporter" where
  "get_and_process_aggregated_data c fb tb s =
     (case get_nimbus_events c fb tb (contracts_reader s) of
        (Inl exc, cr) \<Rightarrow> (Inl exc, s\<lparr>contracts_reader := cr\<rparr>)
      | (Inr events, cr) \<Rightarrow>
          (case process_blocks c (distribute_events_by_blocks events) (s\<lparr>contracts_reader := cr\<rparr>) of
             (Inl exc, s') \<Rightarrow> (Inl exc, s')
           | (Inr u, s') \<Rightarrow>
               (Inr (tb + 1),
                s'\<lparr>database_manager :=
                     update_api_table (apr s') (rewards s') (losses s') (database_manager s')\<rparr>)))"

text \<open>
  \<open>run_body\<close> is one execution of the function body written under \<^verbatim>\<open>def _run\<close>. It ends
  with \<^verbatim>\<open>sys.exit()\<close>, with an exception that leaves the handler, or by returning the
  block to start from and the window for the next cycle.
\<close>

datatype run_result =
    SysExit
  | Raised exn exporter
  | Returned exporter int int

definition restore_connection :: "exporter \<Rightarrow> exporter" where
  "restore_connection s = s\<lparr>reconnections := Suc (reconnections s)\<rparr>"

text \<open>The \<^verbatim>\<open>except Exception as exc\<close> block.\<close>

definition handle_exception :: "exn \<Rightarrow> exporter \<Rightarrow> int \<Rightarrow> int \<Rightarrow> run_result" where
  "handle_exception exc s fb current_range_of_blocks =
     (if exc = ExpectedNetworkException
      then Returned (restore_connection s) fb current_range_of_blocks
      else if range_too_big exc
      then (case decrease_range_of_blocks current_range_of_blocks of
              Inl exc' \<Rightarrow> Raised exc' s
            | Inr r \<Rightarrow> Returned s fb r)
      else Returned (restore_connection s) fb current_range_of_blocks)"

definition run_body :: "chain \<Rightarrow> exporter \<Rightarrow> int \<Rightarrow> int \<Rightarrow> run_result" where
  "run_body c s fb current_range_of_blocks =
     (if stop s then SysExit
      else case finalised_head c of
             Inl exc \<Rightarrow> handle_exception exc s fb current_range_of_blocks
           | Inr block_number \<Rightarrow>
               if block_number \<le> fb then Returned s fb current_range_of_blocks
               else (let tb0 = fb + current_range_of_blocks;
                         tb = (if block_number < tb0 then block_number else tb0)
                     in case get_and_process_aggregated_data c fb tb s of
                          (Inl exc, s') \<Rightarrow> handle_exception exc s' fb current_range_of_blocks
                        | (Inr fb', s') \<Rightarrow>
                            Returned s' fb'
                              (if current_range_of_blocks \<noteq> max_range_of_blocks (service_params s')
                               then max_range_of_blocks (service_params s')
                               else current_range_of_blocks)))"

text \<open>
  \<^verbatim>\<open>_run\<close> is defined under the decorator \<^verbatim>\<open>@reconnection_counter.reconnection_counter\<close>,
  so the name is bound to the decorator's \<^verbatim>\<open>wrapper\<close>: it calls the body, drops what the
  call returns, updates its table of failing threads, then calls the body again with the
  same arguments and returns the result of that second call. The wrapper catches nothing,
  so \<^verbatim>\<open>sys.exit()\<close> or an exception of the first call ends it. The exporter is the same
  object in both calls and keeps what the first call did to it; the chain may answer the
  two calls differently, hence two chains. The table of failing threads holds wall-clock
  times and drives only an alert gauge, and is left out.
\<close>

definition reconnection_counter ::
  "('c \<Rightarrow> exporter \<Rightarrow> int \<Rightarrow> int \<Rightarrow> run_result)
     \<Rightarrow> 'c \<Rightarrow> 'c \<Rightarrow> exporter \<Rightarrow> int \<Rightarrow> int \<Rightarrow> run_result" where
  "reconnection_counter func c1 c2 s fb current_range_of_blocks =
     (case func c1 s fb current_range_of_blocks of
        SysExit \<Rightarrow> SysExit
      | Raised exc s1 \<Rightarrow> Raised exc s1
      | Returned s1 fb1 r1 \<Rightarrow> func c2 s1 fb current_range_of_blocks)"

text \<open>What a call \<^verbatim>\<open>self._run(from_block, current_range_of_blocks)\<close> does.\<close>

definition run_cycle :: "chain \<Rightarrow> chain \<Rightarrow> exporter \<Rightarrow> int \<Rightarrow> int \<Rightarrow> run_result" where
  "run_cycle = reconnection_counter run_body"

section \<open>Concrete data\<close>

text \<open>
  A reader whose five topic hashes are distinct, an exporter as \<^verbatim>\<open>__init__\<close> leaves it
  (with an empty datastore and the default parameters), and the logs used below.
\<close>

definition example_reader :: contracts_reader where
  "example_reader =
     \<lparr>nimbus_event_filter = None,
      deposited_event_hash = ''0xDeposited'',
      losses_event_hash = ''0xLosses'',
      redeemed_event_hash = ''0xRedeemed'',
      rewards_event_hash = ''0xRewards'',
      transfer_event_hash = ''0xTransfer''\<rparr>"

definition example_exporter :: exporter where
  "example_exporter =
     \<lparr>apr = 0, deposited = 0, deposited_events_num = 0, holders_number = 0,
      last_block_number_with_events = - 1, losses = 0, redeemed = 0,
      redeemed_events_num = 0, rewards = 0, stop = False,
      contracts_reader = example_reader,
      database_manager = \<lparr>aggregated_data = None, reward = [], holder = [], api = (0, 0, 0)\<rparr>,
      service_params =
        \<lparr>max_range_of_blocks = 2500, eras_per_day = 4, apr_min = 3 / 100, apr_max = 45 / 100,
         database_query_limit = 100\<rparr>,
      reconnections = 0\<rparr>"

definition raw_log :: "int \<Rightarrow> int \<Rightarrow> string \<Rightarrow> string list \<Rightarrow> event" where
  "raw_log block_number log_index tx ts =
     \<lparr>blockNumber = block_number, logIndex = log_index, transactionHash = tx, topics = ts,
      event_name = [],
      args = \<lparr>amount = 0, ledger = [], rewards = 0, losses = 0, balance = 0\<rparr>\<rparr>"

definition rich_log :: "int \<Rightarrow> int \<Rightarrow> string \<Rightarrow> string \<Rightarrow> event_args \<Rightarrow> event" where
  "rich_log block_number log_index tx name a =
     \<lparr>blockNumber = block_number, logIndex = log_index, transactionHash = tx, topics = [],
      event_name = name, args = a\<rparr>"

text \<open>
  The range \<open>[100, 110]\<close> holding one \<^verbatim>\<open>Deposited\<close> event of amount 50 at block 105.
\<close>

definition deposit_chain :: chain where
  "deposit_chain =
     \<lparr>finalised_head = Inr 110,
      filter_logs = (\<lambda>i. Inr [raw_log 105 0 ''0xa1'' [''0xDeposited'']]),
      transaction_receipt = (\<lambda>tx. Inr (\<lambda>name.
         if name = ''Deposited''
         then [rich_log 105 0 ''0xa1'' ''Deposited''
                 \<lparr>amount = 50, ledger = [], rewards = 0, losses = 0, balance = 0\<rparr>]
         else [])),
      nimbus_ledger_addresses = Inr []\<rparr>"

text \<open>
  The range \<open>[100, 110]\<close> holding a \<^verbatim>\<open>Losses\<close> event at block 102 and a \<^verbatim>\<open>Deposited\<close>
  event at block 105, each in a transaction of its own.
\<close>

definition losses_then_deposit_chain :: chain where
  "losses_then_deposit_chain =
     \<lparr>finalised_head = Inr 110,
      filter_logs = (\<lambda>i. Inr [raw_log 102 0 ''0xb1'' [''0xLosses''],
                              raw_log 105 0 ''0xa1'' [''0xDeposited'']]),
      transaction_receipt = (\<lambda>tx. Inr (\<lambda>name.
         if tx = ''0xa1'' \<and> name = ''Deposited''
         then [rich_log 105 0 ''0xa1'' ''Deposited''
                 \<lparr>amount = 50, ledger = [], rewards = 0, losses = 0, balance = 0\<rparr>]
         else if tx = ''0xb1'' \<and> name = ''Losses''
         then [rich_log 102 0 ''0xb1'' ''Losses''
                 \<lparr>amount = 0, ledger = ''0xL1'', rewards = 0, losses = 7, balance = 1000\<rparr>]
         else [])),
      nimbus_ledger_addresses = Inr [''0xL1'']\<rparr>"

text \<open>A filter on \<open>[100, 110]\<close> and a provider that answers with unsorted entries.\<close>

definition example_filter :: contract_event_filter where
  "example_filter =
     \<lparr>from_block = 100, to_block = 110, uninstalled = False, provider_filter = (100, 110)\<rparr>"

definition unsorted_provider :: provider where
  "unsorted_provider =
     (\<lambda>i. Inr [raw_log 105 3 ''0xa1'' [], raw_log 102 0 ''0xb1'' [], raw_log 105 1 ''0xc1'' []])"

text \<open>
  A provider whose filter handle is stale at both attempts, and one that refuses the range.
\<close>

definition stale_chain :: chain where
  "stale_chain =
     \<lparr>finalised_head = Inr 110,
      filter_logs = (\<lambda>i. Inl (ValueError [[(''code'', ''-32000''), (''message'', ''filter not found'')]])),
      transaction_receipt = (\<lambda>tx. Inl UnexpectedException),
      nimbus_ledger_addresses = Inr []\<rparr>"

definition too_many_results_chain :: chain where
  "too_many_results_chain =
     \<lparr>finalised_head = Inr 5000,
      filter_logs = (\<lambda>i. Inl (ValueError
         [[(''code'', ''-32005''), (''message'', ''query returned more than 10000 results'')]])),
      transaction_receipt = (\<lambda>tx. Inl UnexpectedException),
      nimbus_ledger_addresses = Inr []\<rparr>"

section \<open>Properties of \<^verbatim>\<open>find_log\<close>\<close>

lemma find_log_enumerate_no_match:
  "\<forall>l \<in> set logs. logIndex l \<noteq> t \<Longrightarrow> find_log_enumerate k logs t = 0"
  by (induction logs arbitrary: k) auto

lemma find_log_enumerate_match:
  "\<exists>l \<in> set logs. logIndex l = t \<Longrightarrow>
     k \<le> find_log_enumerate k logs t \<and>
     find_log_enumerate k logs t - k < length logs \<and>
     logIndex (logs ! (find_log_enumerate k logs t - k)) = t \<and>
     (\<forall>j < find_log_enumerate k logs t - k. logIndex (logs ! j) \<noteq> t)"
proof (induction logs arbitrary: k)
  case Nil
  then show ?case by simp
next
  case (Cons a logs)
  show ?case
  proof (cases "t = logIndex a")
    case True
    then show ?thesis by simp
  next
    case False
    with Cons.prems have ex: "\<exists>l \<in> set logs. logIndex l = t" by auto
    let ?r = "find_log_enumerate (Suc k) logs t"
    from Cons.IH [OF ex, of "Suc k"]
    have ih: "Suc k \<le> ?r" "?r - Suc k < length logs"
      "logIndex (logs ! (?r - Suc k)) = t"
      "\<forall>j < ?r - Suc k. logIndex (logs ! j) \<noteq> t" by auto
    have eq: "find_log_enumerate k (a # logs) t = ?r" using False by simp
    have idx: "?r - k = Suc (?r - Suc k)" using ih(1) by arith
    have "\<forall>j < ?r - k. logIndex ((a # logs) ! j) \<noteq> t"
    proof (intro allI impI)
      fix j assume j: "j < ?r - k"
      show "logIndex ((a # logs) ! j) \<noteq> t"
      proof (cases j)
        case 0
        then show ?thesis using False by simp
      next
        case (Suc j')
        with j idx have "j' < ?r - Suc k" by arith
        with ih(4) Suc show ?thesis by simp
      qed
    qed
    with ih idx eq show ?thesis by simp
  qed
qed

text \<open>
  C10. If some log of the tuple has the target \<^verbatim>\<open>logIndex\<close>, \<^verbatim>\<open>find_log\<close> returns the
  position of the first such log; if none has, it returns 0; and so, whenever the decoded
  tuple is not empty, the classifier's indexing selects one of its logs.
\<close>

theorem find_log_first_match_or_zero:
  "((\<exists>l \<in> set logs. logIndex l = t) \<longrightarrow>
      find_log logs t < length logs \<and>
      logIndex (logs ! find_log logs t) = t \<and>
      (\<forall>j < find_log logs t. logIndex (logs ! j) \<noteq> t)) \<and>
   ((\<forall>l \<in> set logs. logIndex l \<noteq> t) \<longrightarrow> find_log logs t = 0) \<and>
   (logs \<noteq> [] \<longrightarrow> (\<exists>l \<in> set logs. select_log logs t = Inr l))"
proof (intro conjI impI)
  assume ex: "\<exists>l \<in> set logs. logIndex l = t"
  from find_log_enumerate_match [OF ex, of 0]
  show "find_log logs t < length logs"
    and "logIndex (logs ! find_log logs t) = t"
    and "\<forall>j < find_log logs t. logIndex (logs ! j) \<noteq> t"
    by (simp_all add: find_log_def)
next
  assume "\<forall>l \<in> set logs. logIndex l \<noteq> t"
  then show "find_log logs t = 0"
    by (simp add: find_log_def find_log_enumerate_no_match)
next
  assume ne: "logs \<noteq> []"
  have "find_log logs t < length logs"
  proof (cases "\<exists>l \<in> set logs. logIndex l = t")
    case True
    from find_log_enumerate_match [OF True, of 0] show ?thesis
      by (simp add: find_log_def)
  next
    case False
    then have "find_log logs t = 0"
      by (simp add: find_log_def find_log_enumerate_no_match)
    with ne show ?thesis by simp
  qed
  then show "\<exists>l \<in> set logs. select_log logs t = Inr l"
    by (auto simp: select_log_def Let_def)
qed

theorem find_log_first_match_or_zero_witness:
  "(\<exists>l \<in> set [raw_log 1 3 [] [], raw_log 1 7 [] [], raw_log 1 7 ''0x2'' []]. logIndex l = 7) \<and>
   find_log [raw_log 1 3 [] [], raw_log 1 7 [] [], raw_log 1 7 ''0x2'' []] 7 = 1 \<and>
   4 \<notin> set (map logIndex [raw_log 1 3 [] [], raw_log 1 7 [] [], raw_log 1 7 ''0x2'' []]) \<and>
   find_log [raw_log 1 3 [] [], raw_log 1 7 [] [], raw_log 1 7 ''0x2'' []] 4 = 0 \<and>
   select_log [raw_log 1 3 [] [], raw_log 1 7 [] [], raw_log 1 7 ''0x2'' []] 4 = Inr (raw_log 1 3 [] [])"
  using find_log_first_match_or_zero [of "[raw_log 1 3 [] [], raw_log 1 7 [] [], raw_log 1 7 ''0x2'' []]" 7]
    find_log_first_match_or_zero [of "[raw_log 1 3 [] [], raw_log 1 7 [] [], raw_log 1 7 ''0x2'' []]" 4]
  by (simp add: find_log_def select_log_def raw_log_def)

section \<open>Properties of the event filter\<close>

lemma last_sorted_Max:
  "xs \<noteq> [] \<Longrightarrow> sorted (map f xs) \<Longrightarrow> f (last xs) = Max (f ` set xs)"
proof (induction xs)
  case Nil
  then show ?case by simp
next
  case (Cons a xs)
  show ?case
  proof (cases "xs = []")
    case True
    then show ?thesis by simp
  next
    case False
    with Cons have ih: "f (last xs) = Max (f ` set xs)" by simp
    from Cons.prems(2) have "\<forall>y \<in> set xs. f a \<le> f y" by simp
    with False have "f a \<le> f (last xs)" by simp
    with ih False show ?thesis by (simp add: max_def)
  qed
qed

lemma sort_key_Nil_iff: "sort_key f xs = [] \<longleftrightarrow> xs = []"
  by (metis length_sort length_0_conv)

lemma fetch_entries_2:
  "fetch_entries 2 0 p f =
     (case p 0 of
        Inr entries \<Rightarrow> (Inr entries, f)
      | Inl exc \<Rightarrow>
          if caught_by_fetch exc
          then (if range_too_big exc then (Inl exc, uninstall f)
                else (case p 1 of
                        Inr entries \<Rightarrow> (Inr entries, init_filter f)
                      | Inl exc' \<Rightarrow>
                          if caught_by_fetch exc'
                          then (if range_too_big exc' then (Inl exc', uninstall (init_filter f))
                                else (Inr [], init_filter (init_filter f)))
                          else (Inl exc', init_filter f)))
          else (Inl exc, f))"
  by (simp add: numeral_2_eq_2 split: sum.splits)

text \<open>
  C8. When the fetch succeeds with a non-empty list, the entries returned are the
  provider's entries (of the first attempt, or of the second after a failed first one)
  sorted ascending by block number, entries of the same block keeping the provider's
  order, and the filter's \<^verbatim>\<open>from_block\<close> is afterwards the largest block number among
  them plus 1.
\<close>

theorem get_all_entries_sorted_stable:
  assumes "get_all_entries p f = (Inr evs, f')" and "evs \<noteq> []"
  shows "\<exists>entries. (p 0 = Inr entries \<or> (\<exists>exc. p 0 = Inl exc \<and> p 1 = Inr entries)) \<and>
           mset evs = mset entries \<and>
           sorted (map blockNumber evs) \<and>
           (\<forall>b. filter (\<lambda>e. blockNumber e = b) evs = filter (\<lambda>e. blockNumber e = b) entries) \<and>
           from_block f' = Max (blockNumber ` set entries) + 1"
proof -
  define f0 where "f0 = (if uninstalled f then init_filter f else f)"
  obtain r f1 where fe: "fetch_entries 2 0 p f0 = (r, f1)" by (cases "fetch_entries 2 0 p f0")
  from assms(1) fe obtain entries where r: "r = Inr entries"
    by (cases r) (auto simp: get_all_entries_def f0_def Let_def)
  from assms fe r have evs: "evs = sort_key blockNumber entries"
    by (auto simp: get_all_entries_def f0_def Let_def split: if_splits)
  with assms(2) have ne: "entries \<noteq> []" by auto
  from assms fe r ne have fb: "from_block f' = blockNumber (last (sort_key blockNumber entries)) + 1"
    by (auto simp: get_all_entries_def f0_def Let_def sort_key_Nil_iff split: if_splits)
  have src: "p 0 = Inr entries \<or> (\<exists>exc. p 0 = Inl exc \<and> p 1 = Inr entries)"
    using fe r ne unfolding fetch_entries_2
    by (auto split: sum.splits if_splits)
  have "blockNumber (last (sort_key blockNumber entries)) = Max (blockNumber ` set (sort_key blockNumber entries))"
    using ne by (intro last_sorted_Max) (auto simp: sort_key_Nil_iff)
  with fb have "from_block f' = Max (blockNumber ` set entries) + 1" by simp
  with src evs show ?thesis
    by (intro exI [of _ entries]) (simp add: sort_key_stable)
qed

theorem get_all_entries_sorted_stable_witness:
  "get_all_entries unsorted_provider example_filter =
     (Inr [raw_log 102 0 ''0xb1'' [], raw_log 105 3 ''0xa1'' [], raw_log 105 1 ''0xc1'' []],
      \<lparr>from_block = 106, to_block = 110, uninstalled = True, provider_filter = (100, 110)\<rparr>) \<and>
   (\<exists>entries. (unsorted_provider 0 = Inr entries \<or> (\<exists>exc. unsorted_provider 0 = Inl exc \<and> unsorted_provider 1 = Inr entries)) \<and>
           mset [raw_log 102 0 ''0xb1'' [], raw_log 105 3 ''0xa1'' [], raw_log 105 1 ''0xc1'' []] = mset entries \<and>
           sorted (map blockNumber [raw_log 102 0 ''0xb1'' [], raw_log 105 3 ''0xa1'' [], raw_log 105 1 ''0xc1'' []]) \<and>
           (\<forall>b. filter (\<lambda>e. blockNumber e = b) [raw_log 102 0 ''0xb1'' [], raw_log 105 3 ''0xa1'' [], raw_log 105 1 ''0xc1'' []] = filter (\<lambda>e. blockNumber e = b) entries) \<and>
           106 = Max (blockNumber ` set entries) + 1)"
proof -
  have h: "get_all_entries unsorted_provider example_filter =
     (Inr [raw_log 102 0 ''0xb1'' [], raw_log 105 3 ''0xa1'' [], raw_log 105 1 ''0xc1'' []],
      \<lparr>from_block = 106, to_block = 110, uninstalled = True, provider_filter = (100, 110)\<rparr>)"
    by (simp add: get_all_entries_def unsorted_provider_def example_filter_def fetch_entries_2 raw_log_def uninstall_def)
  from get_all_entries_sorted_stable [OF h] h show ?thesis by simp
qed

text \<open>
  C9. The constructor rejects a range with \<^verbatim>\<open>from_block > to_block\<close>, but
  \<^verbatim>\<open>update_filter_range\<close> has no such check: given 10 and 5 it installs the range and the
  filter then holds \<^verbatim>\<open>from_block = 10 > to_block = 5\<close>.
\<close>

theorem update_filter_range_accepts_inverted_range:
  "update_filter_range 10 5 example_filter =
     \<lparr>from_block = 10, to_block = 5, uninstalled = False, provider_filter = (10, 5)\<rparr> \<and>
   new_filter 10 5 = Inl AssertionError"
  by (simp add: update_filter_range_def new_filter_def example_filter_def init_filter_def uninstall_def)

section \<open>Properties of the window shrink\<close>

text \<open>
  Below \<open>2 ^ 52\<close> the conversion of the window to a double is exact, and the rounded
  product with the double \<^verbatim>\<open>0.1\<close> truncates to the integer quotient by 10.
\<close>

lemma coefficient_value: "coefficient = 3602879701896397 / 36028797018963968"
  by code_simp

lemma bit_length_le: "n < 2 ^ k \<Longrightarrow> bit_length n \<le> k"
proof (induction k arbitrary: n)
  case 0
  then show ?case by (simp add: bit_length.simps [of 0])
next
  case (Suc k)
  then have "n div 2 < 2 ^ k" by simp
  from Suc.IH [OF this] show ?case by (simp add: bit_length.simps [of n])
qed

lemma bit_length_pos: "0 < n \<Longrightarrow> 0 < bit_length n"
  by (simp add: bit_length.simps [of n])

lemma pow2_nonpos: "e \<le> 0 \<Longrightarrow> pow2 e = 1 / 2 ^ nat (- e)"
  by (cases "e = 0") (simp_all add: pow2_def)

lemma bit_length_bounds: "0 < n \<Longrightarrow> 2 ^ (bit_length n - 1) \<le> n \<and> n < 2 ^ bit_length n"
proof (induction n rule: less_induct)
  case (less n)
  show ?case
  proof (cases "n = 1")
    case True
    then show ?thesis
      by (simp add: bit_length.simps [of "Suc 0"] bit_length.simps [of 0])
  next
    case False
    with less.prems have h: "0 < n div 2" "n div 2 < n" by auto
    from less.IH [OF h(2) h(1)]
    have ih: "2 ^ (bit_length (n div 2) - 1) \<le> n div 2" "n div 2 < 2 ^ bit_length (n div 2)"
      by auto
    have pos: "0 < bit_length (n div 2)" using h(1) by (rule bit_length_pos)
    have bl: "bit_length n = Suc (bit_length (n div 2))"
      using less.prems by (simp add: bit_length.simps [of n])
    have "2 * 2 ^ (bit_length (n div 2) - 1) \<le> n" using ih(1) by simp
    moreover have "2 * 2 ^ (bit_length (n div 2) - 1) = (2 :: nat) ^ bit_length (n div 2)"
      using pos by (cases "bit_length (n div 2)") simp_all
    moreover have "n < 2 * 2 ^ bit_length (n div 2)" using ih(2) by simp
    ultimately show ?thesis by (simp add: bl)
  qed
qed

lemma binade_bracket:
  assumes "0 < x"
  shows "pow2 (binade x) \<le> x \<and> x < pow2 (binade x + 1)"
proof (cases "1 \<le> x")
  case True
  define n where "n = nat \<lfloor>x\<rfloor>"
  have n: "0 < n" using True by (simp add: n_def)
  from bit_length_pos [OF n] obtain k where k: "bit_length n = Suc k"
    by (cases "bit_length n") auto
  from bit_length_bounds [OF n] k
  have b: "2 ^ k \<le> n" "n < 2 ^ Suc k" by auto
  have fl: "int n = \<lfloor>x\<rfloor>" using True by (simp add: n_def)
  have e: "binade x = int k"
    using True k by (simp add: binade_def n_def)
  have "int (2 ^ k) \<le> int n" using b(1) by (simp only: of_nat_le_iff)
  then have "2 ^ k \<le> \<lfloor>x\<rfloor>" using fl by simp
  then have lo: "(2 :: rat) ^ k \<le> x" by (simp add: le_floor_iff)
  have "int n < int (2 ^ Suc k)" using b(2) by (simp only: of_nat_less_iff)
  then have "\<lfloor>x\<rfloor> < 2 ^ Suc k" using fl by simp
  then have hi: "x < 2 ^ Suc k" by (simp add: floor_less_iff)
  have "pow2 (int k) = 2 ^ k" by (simp add: pow2_def)
  moreover have "pow2 (int k + 1) = 2 ^ Suc k"
  proof -
    have "nat (int k + 1) = Suc k" by arith
    then show ?thesis by (simp add: pow2_def)
  qed
  ultimately show ?thesis using lo hi by (simp add: e)
next
  case False
  then have x1: "x < 1" by simp
  define y where "y = 1 / x"
  have y1: "1 < y" using assms x1 by (simp add: y_def)
  have ypos: "0 < y" using y1 by simp
  have xy: "x = 1 / y" by (simp add: y_def)
  define n where "n = nat \<lceil>y\<rceil> - 1"
  have cy: "2 \<le> \<lceil>y\<rceil>" using y1 by (simp add: le_ceiling_iff)
  then have n: "0 < n" unfolding n_def by arith
  have nn: "int n = \<lceil>y\<rceil> - 1" using cy unfolding n_def by arith
  from bit_length_pos [OF n] obtain k where k: "bit_length n = Suc k"
    by (cases "bit_length n") auto
  from bit_length_bounds [OF n] k
  have b: "2 ^ k \<le> n" "n < 2 ^ Suc k" by auto
  have e: "binade x = - int (Suc k)" using False k by (simp add: binade_def n_def y_def)
  have "int n < int (2 ^ Suc k)" using b(2) by (simp only: of_nat_less_iff)
  then have "\<lceil>y\<rceil> \<le> 2 ^ Suc k" using nn by simp
  then have yle: "y \<le> 2 ^ Suc k" by (simp add: ceiling_le_iff)
  have lo: "1 / 2 ^ Suc k \<le> x" unfolding xy using yle ypos
    by (intro divide_left_mono) simp_all
  have "int (2 ^ k) \<le> int n" using b(1) by (simp only: of_nat_le_iff)
  then have "2 ^ k < \<lceil>y\<rceil>" using nn by simp
  then have ygt: "2 ^ k < y" by (simp add: less_ceiling_iff)
  have hi: "x < 1 / 2 ^ k" unfolding xy using ygt ypos
    by (intro divide_strict_left_mono) simp_all
  have sk: "nat (int k + 1) = Suc k" by arith
  have "pow2 (- int (Suc k)) = 1 / 2 ^ Suc k" by (simp add: pow2_def sk)
  moreover have "pow2 (- int (Suc k) + 1) = 1 / 2 ^ k"
    using pow2_nonpos [of "- int k"] by simp
  ultimately show ?thesis using lo hi by (simp only: e)
qed

lemma round_half_even_of_int: "round_half_even (of_int m) = m"
  by (simp add: round_half_even_def)

lemma round_half_even_ge: "\<lfloor>y\<rfloor> \<le> round_half_even y"
  by (simp add: round_half_even_def Let_def)

lemma round_half_even_le: "of_int (round_half_even y) \<le> y + 1 / 2"
proof -
  have f: "of_int \<lfloor>y\<rfloor> \<le> y" by simp
  show ?thesis
  proof (cases "y - of_int \<lfloor>y\<rfloor> < 1 / 2")
    case True
    then have "round_half_even y = \<lfloor>y\<rfloor>" by (simp add: round_half_even_def Let_def)
    with f show ?thesis by linarith
  next
    case False
    have "round_half_even y \<le> \<lfloor>y\<rfloor> + 1" by (simp add: round_half_even_def Let_def)
    then have "(of_int (round_half_even y) :: rat) \<le> of_int (\<lfloor>y\<rfloor> + 1)"
      by (simp only: of_int_le_iff)
    with False show ?thesis by simp
  qed
qed

lemma binade_le:
  assumes "0 < x" and "x < 2 ^ k" and "0 < k"
  shows "binade x \<le> int k - 1"
proof (cases "1 \<le> x")
  case True
  have "\<lfloor>x\<rfloor> < 2 ^ k" using assms(2) by (simp add: floor_less_iff)
  then have "nat \<lfloor>x\<rfloor> < 2 ^ k" using True by (simp add: nat_less_iff)
  from bit_length_le [OF this] True show ?thesis by (simp add: binade_def)
next
  case False
  with assms(3) show ?thesis by (simp add: binade_def)
qed

lemma binade_ge0: "1 \<le> x \<Longrightarrow> 0 \<le> binade x"
proof -
  assume a: "1 \<le> x"
  then have "1 \<le> \<lfloor>x\<rfloor>" by simp
  then have "0 < nat \<lfloor>x\<rfloor>" by simp
  from bit_length_pos [OF this] a show ?thesis by (simp add: binade_def)
qed

lemma to_binary64_of_int:
  assumes "0 \<le> w" and "w < 2 ^ 53"
  shows "to_binary64 (of_int w) = of_int w"
proof (cases "w = 0")
  case True
  then show ?thesis by (simp add: to_binary64_def)
next
  case False
  with assms have w1: "1 \<le> w" by simp
  define x :: rat where "x = of_int w"
  have x1: "1 \<le> x" using w1 by (simp add: x_def)
  have xlt: "x < 2 ^ 53" using assms(2) unfolding x_def
    by (metis of_int_less_numeral_power_cancel_iff)
  define e where "e = binade x"
  have e0: "0 \<le> e" unfolding e_def using x1 by (rule binade_ge0)
  have e52: "e \<le> 52" using binade_le [of x 53] x1 xlt by (simp add: e_def)
  define m where "m = nat (52 - e)"
  have ulp: "pow2 (max e (- 1022) - 52) = 1 / 2 ^ m"
    using e0 e52 by (simp add: pow2_nonpos m_def max_def)
  have "x / (1 / 2 ^ m) = of_int (w * 2 ^ m)" by (simp add: x_def)
  then have r: "round_half_even (x / (1 / 2 ^ m)) = w * 2 ^ m"
    by (simp only: round_half_even_of_int)
  have "to_binary64 x = of_int (w * 2 ^ m) * (1 / 2 ^ m)"
    using x1 ulp r by (simp add: to_binary64_def Let_def e_def [symmetric])
  also have "\<dots> = x" by (simp add: x_def)
  finally show ?thesis by (simp add: x_def)
qed

lemma float_of_int_exact:
  assumes "0 \<le> w" and "w < 2 ^ 53"
  shows "float_of_int w = Inr (of_int w)"
proof -
  have "(of_int w :: rat) < 2 ^ 53" using assms(2)
    by (metis of_int_less_numeral_power_cancel_iff)
  also have "(2 :: rat) ^ 53 < 2 ^ 1024" by simp
  finally have "\<bar>of_int w :: rat\<bar> < pow2 1024" using assms(1) by (simp add: pow2_def)
  then show ?thesis
    by (simp add: float_of_int_def to_binary64_of_int [OF assms] Let_def)
qed

lemma product_truncates_to_tenth:
  assumes "0 \<le> w" and "w < 2 ^ 52"
  shows "int_of_float (to_binary64 (of_int w * coefficient)) = w div 10"
proof (cases "w = 0")
  case True
  then show ?thesis by (simp add: to_binary64_def int_of_float_def)
next
  case False
  with assms have w1: "1 \<le> w" by simp
  define k where "k = w div 10"
  define x :: rat where "x = of_int w * coefficient"
  have wr: "(of_int w :: rat) < 2 ^ 52" using assms(2)
    by (metis of_int_less_numeral_power_cancel_iff)
  have wpos: "(0 :: rat) < of_int w" using w1 by simp
  have xpos: "0 < x" using wpos by (simp add: x_def coefficient_value)
  have "10 * k \<le> w" unfolding k_def by simp
  then have "(of_int (10 * k) :: rat) \<le> of_int w" by (simp only: of_int_le_iff)
  then have kw: "10 * (of_int k :: rat) \<le> of_int w" by simp
  have "w \<le> 10 * k + 9" unfolding k_def by presburger
  then have "(of_int w :: rat) \<le> of_int (10 * k + 9)" by (simp only: of_int_le_iff)
  then have wk: "(of_int w :: rat) \<le> 10 * of_int k + 9" by simp
  have lo: "of_int k \<le> x" using kw wpos by (simp add: x_def coefficient_value)
  have hi: "x \<le> of_int k + 9 / 10 + 1 / 40 + 1 / 1000" using wk wr
    by (simp add: x_def coefficient_value)
  have "x < 2 ^ 49" using wr by (simp add: x_def coefficient_value)
  from binade_le [OF xpos this] have b: "binade x \<le> 48" by simp
  define e where "e = max (binade x) (- 1022)"
  have e48: "e \<le> 48" using b by (simp add: e_def)
  define m where "m = nat (52 - e)"
  have m4: "4 \<le> m" using e48 by (simp add: m_def)
  have ulp: "pow2 (e - 52) = 1 / 2 ^ m" using e48 by (simp add: pow2_nonpos m_def)
  define R where "R = round_half_even (x * 2 ^ m)"
  have t: "to_binary64 x = of_int R / 2 ^ m"
    using xpos ulp by (simp add: to_binary64_def Let_def e_def [symmetric] R_def)
  have p2: "(0 :: rat) < 2 ^ m" by simp
  have "(of_int (k * 2 ^ m) :: rat) \<le> x * 2 ^ m" using lo by simp
  then have "k * 2 ^ m \<le> \<lfloor>x * 2 ^ m\<rfloor>" by (simp only: le_floor_iff)
  also have "\<dots> \<le> R" unfolding R_def by (rule round_half_even_ge)
  finally have "(of_int (k * 2 ^ m) :: rat) \<le> of_int R" by (simp only: of_int_le_iff)
  then have "of_int k * 2 ^ m \<le> (of_int R :: rat)" by simp
  then have tlo: "of_int k \<le> to_binary64 x" using p2 by (simp add: t pos_le_divide_eq)
  have "(2 :: rat) ^ 4 \<le> 2 ^ m" using m4 by (intro power_increasing) simp_all
  then have m16: "(16 :: rat) \<le> 2 ^ m" by simp
  have "of_int R \<le> x * 2 ^ m + 1 / 2" unfolding R_def by (rule round_half_even_le)
  then have "of_int R / 2 ^ m \<le> (x * 2 ^ m + 1 / 2) / 2 ^ m" using p2
    by (simp only: divide_le_cancel) simp
  also have "\<dots> = x + 1 / (2 * 2 ^ m)" by (simp add: add_divide_distrib)
  also have "1 / (2 * 2 ^ m) \<le> (1 :: rat) / 32" using m16 by (simp add: field_simps)
  finally have "to_binary64 x \<le> x + 1 / 32" by (simp add: t)
  with hi have thi: "to_binary64 x < of_int k + 1" by simp
  have k0: "0 \<le> k" using assms(1) by (simp add: k_def)
  then have "(0 :: rat) \<le> of_int k" by simp
  with tlo have t0: "0 \<le> to_binary64 x" by linarith
  have "\<lfloor>to_binary64 x\<rfloor> = k" using tlo thi by (simp add: floor_eq_iff)
  with t0 show ?thesis by (simp add: int_of_float_def x_def k_def)
qed

lemma decrease_range_of_blocks_value:
  assumes "0 \<le> w" and "w < 2 ^ 52"
  shows "decrease_range_of_blocks w =
           Inr (if w \<le> 1 then 1 else if w < 10 then w - 1 else w - w div 10)"
proof -
  have "w < 2 ^ 53" using assms(2) by simp
  from float_of_int_exact [OF assms(1) this]
  have "decrease_range_of_blocks w =
      Inr (let range_new = max (w - w div 10) 1
           in if range_new = w \<and> range_new > 1 then range_new - 1 else range_new)"
    by (simp add: decrease_range_of_blocks_def product_truncates_to_tenth [OF assms] Let_def)
  also have "(let range_new = max (w - w div 10) 1
           in if range_new = w \<and> range_new > 1 then range_new - 1 else range_new) =
      (if w \<le> 1 then 1 else if w < 10 then w - 1 else w - w div 10)"
    using assms(1) by (auto simp: Let_def max_def)
  finally show ?thesis .
qed

lemma decrease_range_of_blocks_step:
  assumes "2 \<le> w" and "w < 2 ^ 52"
  shows "\<exists>r. decrease_range_of_blocks w = Inr r \<and> 1 \<le> r \<and> r < w"
proof -
  have "0 \<le> w" using assms(1) by simp
  from decrease_range_of_blocks_value [OF this assms(2)] assms(1)
  show ?thesis by auto
qed

lemma decrease_range_of_blocks_one: "decrease_range_of_blocks 1 = Inr 1"
  using decrease_range_of_blocks_value [of 1] by simp

lemma decrease_repeatedly_one: "decrease_repeatedly n 1 = Inr 1"
  by (induction n) (simp_all add: decrease_range_of_blocks_one)

lemma decrease_repeatedly_reaches_one:
  assumes "1 \<le> w" and "w < 2 ^ 52"
  shows "\<exists>n. \<forall>m\<ge>n. decrease_repeatedly m w = Inr 1"
  using assms
proof (induction "nat w" arbitrary: w rule: less_induct)
  case less
  show ?case
  proof (cases "w = 1")
    case True
    then show ?thesis by (simp add: decrease_repeatedly_one)
  next
    case False
    with less.prems have "2 \<le> w" by simp
    from decrease_range_of_blocks_step [OF this less.prems(2)]
    obtain r where r: "decrease_range_of_blocks w = Inr r" "1 \<le> r" "r < w" by blast
    have "nat r < nat w" using r(2,3) by simp
    moreover have "r < 2 ^ 52" using r(3) less.prems(2) by simp
    ultimately obtain n where n: "\<forall>m\<ge>n. decrease_repeatedly m r = Inr 1"
      using less.hyps [of r] r(2) by blast
    have "\<forall>m\<ge>Suc n. decrease_repeatedly m w = Inr 1"
    proof (intro allI impI)
      fix m assume "Suc n \<le> m"
      then obtain m' where m': "m = Suc m'" "n \<le> m'" by (cases m) auto
      with n r(1) show "decrease_repeatedly m w = Inr 1" by simp
    qed
    then show ?thesis ..
  qed
qed

lemma decrease_repeatedly_positive:
  assumes "1 \<le> w" and "w < 2 ^ 52"
  shows "\<exists>r. decrease_repeatedly n w = Inr r \<and> 1 \<le> r \<and> r \<le> w"
  using assms
proof (induction n arbitrary: w)
  case 0
  then show ?case by simp
next
  case (Suc n)
  show ?case
  proof (cases "w = 1")
    case True
    then show ?thesis by (simp add: decrease_repeatedly_one del: decrease_repeatedly.simps)
  next
    case False
    with Suc.prems have "2 \<le> w" by simp
    from decrease_range_of_blocks_step [OF this Suc.prems(2)]
    obtain r where r: "decrease_range_of_blocks w = Inr r" "1 \<le> r" "r < w" by blast
    have "r < 2 ^ 52" using r(3) Suc.prems(2) by simp
    from Suc.IH [OF r(2) this] obtain r' where
      "decrease_repeatedly n r = Inr r'" "1 \<le> r'" "r' \<le> r" by blast
    with r show ?thesis by simp
  qed
qed

text \<open>
  C2. For a window \<open>w \<ge> 2\<close> one shrink returns a value that is at least 1 and strictly
  less than \<open>w\<close>; the shrink of 1 is 1; so repeated shrinking reaches 1, stays there, and
  never yields 0 or a negative window. Windows are taken below \<open>2 ^ 52\<close>, which covers
  every 32-bit size.
\<close>

theorem decrease_range_of_blocks_converges:
  assumes "1 \<le> w" and "w < 2 ^ 52"
  shows "(2 \<le> w \<longrightarrow> (\<exists>r. decrease_range_of_blocks w = Inr r \<and> 1 \<le> r \<and> r < w)) \<and>
         decrease_range_of_blocks 1 = Inr 1 \<and>
         (\<exists>n. \<forall>m\<ge>n. decrease_repeatedly m w = Inr 1) \<and>
         (\<forall>n. \<exists>r. decrease_repeatedly n w = Inr r \<and> 1 \<le> r \<and> r \<le> w)"
  using assms decrease_range_of_blocks_step decrease_range_of_blocks_one
    decrease_repeatedly_reaches_one decrease_repeatedly_positive
  by blast

theorem decrease_range_of_blocks_converges_witness:
  "(1 :: int) \<le> 1000 \<and> (1000 :: int) < 2 ^ 52 \<and>
   decrease_range_of_blocks 1000 = Inr 900 \<and>
   (\<exists>r. decrease_range_of_blocks 1000 = Inr r \<and> 1 \<le> r \<and> r < 1000) \<and>
   (\<exists>n. \<forall>m\<ge>n. decrease_repeatedly m 1000 = Inr 1) \<and>
   (\<forall>n. \<exists>r. decrease_repeatedly n 1000 = Inr r \<and> 1 \<le> r \<and> r \<le> 1000)"
proof -
  have "decrease_range_of_blocks 1000 = Inr 900" by code_simp
  with decrease_range_of_blocks_converges [of 1000] show ?thesis by simp
qed

section \<open>Properties of the scan cycle\<close>

text \<open>
  C7. From a state whose deposit and redemption aggregates are zero, processing the range
  \<open>[100, 110]\<close> whose only log is a \<^verbatim>\<open>Deposited\<close> event of amount 50 at block 105 leaves
  a deposited total of 50, a deposited count of 1 and 105 as the last block with events,
  and returns 111 as the next block.
\<close>

theorem single_deposit_cycle:
  assumes "filter_logs c 0 = Inr [raw]"
    and "topics raw = deposited_event_hash (contracts_reader s) # ts"
    and "transaction_receipt c (transactionHash raw) = Inr tx_receipt"
    and "select_log (tx_receipt ''Deposited'') (logIndex raw) = Inr rich"
    and "blockNumber rich = 105" and "amount (args rich) = 50"
    and "nimbus_ledger_addresses c = Inr addrs"
    and "deposited s = 0" and "deposited_events_num s = 0"
    and "redeemed s = 0" and "redeemed_events_num s = 0"
  shows "fst (get_and_process_aggregated_data c 100 110 s) = Inr 111 \<and>
         deposited (snd (get_and_process_aggregated_data c 100 110 s)) = 50 \<and>
         deposited_events_num (snd (get_and_process_aggregated_data c 100 110 s)) = 1 \<and>
         redeemed (snd (get_and_process_aggregated_data c 100 110 s)) = 0 \<and>
         redeemed_events_num (snd (get_and_process_aggregated_data c 100 110 s)) = 0 \<and>
         last_block_number_with_events (snd (get_and_process_aggregated_data c 100 110 s)) = 105 \<and>
         aggregated_data (database_manager (snd (get_and_process_aggregated_data c 100 110 s))) =
           Some (50, 1, 0, 0, 105)"
proof -
  have g: "\<exists>f'. get_all_entries (filter_logs c) g = (Inr [raw], f')" for g
    using assms(1) by (simp add: get_all_entries_def fetch_entries_2 Let_def)
  have d: "distribute_events (contracts_reader s) c [raw] =
      Inr [(''Deposited'', [rich]), (''Losses'', []), (''Redeemed'', []), (''Rewards'', []), (''Transfer'', [])]"
    using assms(2-4)
    by (simp add: distribute_events_def empty_events_def append_rich_log_def dict_append_def)
  have n: "\<exists>cr. get_nimbus_events c 100 110 (contracts_reader s) =
      (Inr [(''Deposited'', [rich]), (''Losses'', []), (''Redeemed'', []), (''Rewards'', []), (''Transfer'', [])], cr)"
  proof (cases "nimbus_event_filter (contracts_reader s)")
    case None
    obtain f' where "get_all_entries (filter_logs c) (init_filter
        \<lparr>from_block = 100, to_block = 110, uninstalled = False, provider_filter = (100, 110)\<rparr>) = (Inr [raw], f')"
      using g by blast
    with None d show ?thesis by (simp add: get_nimbus_events_def new_filter_def)
  next
    case (Some f)
    obtain f' where "get_all_entries (filter_logs c) (update_filter_range 100 110 f) = (Inr [raw], f')"
      using g by blast
    with Some d show ?thesis by (simp add: get_nimbus_events_def)
  qed
  then obtain cr where n': "get_nimbus_events c 100 110 (contracts_reader s) =
      (Inr [(''Deposited'', [rich]), (''Losses'', []), (''Redeemed'', []), (''Rewards'', []), (''Transfer'', [])], cr)" ..
  have b: "distribute_events_by_blocks
      [(''Deposited'', [rich]), (''Losses'', []), (''Redeemed'', []), (''Rewards'', []), (''Transfer'', [])] =
      [(105, [(''Deposited'', [rich]), (''Losses'', []), (''Redeemed'', []), (''Rewards'', []), (''Transfer'', [])])]"
    using assms(5) by (simp add: distribute_events_by_blocks_def distribute_event_def dict_append_def)
  show ?thesis
    using assms(5-11)
    by (simp add: get_and_process_aggregated_data_def n' b process_block_def
        process_deposited_and_redeemed_events_def getitem_def process_transfer_events_def
        update_aggregated_data_def update_api_table_def Let_def)
qed

theorem single_deposit_cycle_witness:
  "fst (get_and_process_aggregated_data deposit_chain 100 110 example_exporter) = Inr 111 \<and>
   deposited (snd (get_and_process_aggregated_data deposit_chain 100 110 example_exporter)) = 50 \<and>
   deposited_events_num (snd (get_and_process_aggregated_data deposit_chain 100 110 example_exporter)) = 1 \<and>
   last_block_number_with_events (snd (get_and_process_aggregated_data deposit_chain 100 110 example_exporter)) = 105"
  using single_deposit_cycle [of deposit_chain "raw_log 105 0 ''0xa1'' [''0xDeposited'']" example_exporter "[]"
      "\<lambda>name. if name = ''Deposited''
         then [rich_log 105 0 ''0xa1'' ''Deposited''
                 \<lparr>amount = 50, ledger = [], rewards = 0, losses = 0, balance = 0\<rparr>]
         else []"
      "rich_log 105 0 ''0xa1'' ''Deposited''
                 \<lparr>amount = 50, ledger = [], rewards = 0, losses = 0, balance = 0\<rparr>" "[]"]
  by (simp add: deposit_chain_def example_exporter_def example_reader_def raw_log_def rich_log_def
      select_log_def find_log_def)

text \<open>
  The order in which the groups are folded: the block numbers in the order of their
  first occurrence when the events are read name by name.
\<close>

lemma distribute_event_blocks:
  "map fst (distribute_event keys key ev d) =
     (if blockNumber ev \<in> set (map fst d) then map fst d else map fst d @ [blockNumber ev])"
  by (auto simp: distribute_event_def Let_def case_prod_beta comp_def)

lemma fold_distribute_event_blocks:
  "map fst (fold (distribute_event keys key) evs d) =
     fold (\<lambda>b bs. if b \<in> set bs then bs else bs @ [b]) (map blockNumber evs) (map fst d)"
proof (induction evs arbitrary: d)
  case Nil
  then show ?case by simp
next
  case (Cons ev evs)
  show ?case
    by (simp add: Cons.IH distribute_event_blocks del: set_map)
qed

lemma distribute_events_by_blocks_order_aux:
  "map fst (fold (\<lambda>(key, evs) d. fold (distribute_event keys key) evs d) events d) =
     fold (\<lambda>b bs. if b \<in> set bs then bs else bs @ [b])
       (concat (map (\<lambda>(key, evs). map blockNumber evs) events)) (map fst d)"
proof (induction events arbitrary: d)
  case Nil
  then show ?case by simp
next
  case (Cons p events)
  obtain key evs where p: "p = (key, evs)" by (cases p)
  show ?case
    by (simp add: p Cons.IH fold_distribute_event_blocks)
qed

lemma distribute_events_by_blocks_order:
  "map fst (distribute_events_by_blocks events) =
     fold (\<lambda>b bs. if b \<in> set bs then bs else bs @ [b])
       (concat (map (\<lambda>(key, evs). map blockNumber evs) events)) []"
  using distribute_events_by_blocks_order_aux [of "map fst events" events "[]"]
  by (simp add: distribute_events_by_blocks_def)

text \<open>
  C1. The groups are folded in the order in which \<^verbatim>\<open>distribute_events_by_blocks\<close> first
  meets their block numbers, which goes through the event names before the blocks. With a
  \<^verbatim>\<open>Losses\<close> event at block 102 and a \<^verbatim>\<open>Deposited\<close> event at block 105 in one range,
  block 105 is folded before block 102, and the cycle ends with 102 as the last block with
  events, in the exporter and in the checkpoint.
\<close>

theorem blocks_folded_in_key_order:
  "map fst (distribute_events_by_blocks
     [(''Deposited'', [rich_log 105 0 ''0xa1'' ''Deposited''
                         \<lparr>amount = 50, ledger = [], rewards = 0, losses = 0, balance = 0\<rparr>]),
      (''Losses'', [rich_log 102 0 ''0xb1'' ''Losses''
                      \<lparr>amount = 0, ledger = ''0xL1'', rewards = 0, losses = 7, balance = 1000\<rparr>]),
      (''Redeemed'', []), (''Rewards'', []), (''Transfer'', [])]) = [105, 102] \<and>
   fst (get_and_process_aggregated_data losses_then_deposit_chain 100 110 example_exporter) = Inr 111 \<and>
   last_block_number_with_events
     (snd (get_and_process_aggregated_data losses_then_deposit_chain 100 110 example_exporter)) = 102 \<and>
   aggregated_data (database_manager
     (snd (get_and_process_aggregated_data losses_then_deposit_chain 100 110 example_exporter))) =
     Some (50, 1, 0, 0, 102)"
  by code_simp

text \<open>
  The body alone: when its fetch raises the range signal, it returns the block it was
  entered with and the shrunk window, and the exporter differs from the one it was entered
  with only in the filter object held by the reader.
\<close>

lemma run_body_range_signal:
  assumes "\<not> stop s" and "finalised_head c = Inr h" and "fb < h"
    and "get_nimbus_events c fb (if h < fb + w then h else fb + w) (contracts_reader s) = (Inl exc, cr)"
    and "range_too_big exc"
    and "1 \<le> w" and "w < 2 ^ 52"
  shows "\<exists>w'. decrease_range_of_blocks w = Inr w' \<and> 1 \<le> w' \<and> w' \<le> w \<and>
           run_body c s fb w = Returned (s\<lparr>contracts_reader := cr\<rparr>) fb w'"
proof -
  from decrease_repeatedly_positive [OF assms(6,7), of "Suc 0"]
  obtain w' where w': "decrease_range_of_blocks w = Inr w'" "1 \<le> w'" "w' \<le> w"
    by (auto split: sum.splits)
  have ne: "exc \<noteq> ExpectedNetworkException" using assms(5) by auto
  have "get_and_process_aggregated_data c fb (if h < fb + w then h else fb + w) s =
      (Inl exc, s\<lparr>contracts_reader := cr\<rparr>)"
    using assms(4) by (simp add: get_and_process_aggregated_data_def)
  then have "run_body c s fb w = Returned (s\<lparr>contracts_reader := cr\<rparr>) fb w'"
    using assms(1-3,5) ne w'(1)
    by (simp add: run_body_def handle_exception_def Let_def)
  with w' show ?thesis by blast
qed

text \<open>
  A call of \<^verbatim>\<open>_run\<close> whose second execution of the body ends with the range signal
  returns the exporter that the first execution left, not the one the call was entered
  with.
\<close>

lemma run_cycle_range_signal:
  assumes "run_body c1 s fb w = Returned s1 fb1 w1"
    and "\<not> stop s1" and "finalised_head c2 = Inr h" and "fb < h"
    and "get_nimbus_events c2 fb (if h < fb + w then h else fb + w) (contracts_reader s1) = (Inl exc, cr)"
    and "range_too_big exc"
    and "1 \<le> w" and "w < 2 ^ 52"
  shows "\<exists>w'. decrease_range_of_blocks w = Inr w' \<and> 1 \<le> w' \<and> w' \<le> w \<and>
           run_cycle c1 c2 s fb w = Returned (s1\<lparr>contracts_reader := cr\<rparr>) fb w'"
  using run_body_range_signal [OF assms(2-8)] assms(1)
  by (simp add: run_cycle_def reconnection_counter_def)

lemma run_body_deposit:
  "\<exists>s1. run_body deposit_chain example_exporter 100 1000 = Returned s1 111 2500 \<and>
         \<not> stop s1 \<and> deposited s1 = 50 \<and> deposited_events_num s1 = 1 \<and>
         redeemed s1 = 0 \<and> redeemed_events_num s1 = 0 \<and>
         last_block_number_with_events s1 = 105 \<and>
         aggregated_data (database_manager s1) = Some (50, 1, 0, 0, 105) \<and>
         nimbus_event_filter (contracts_reader s1) =
           Some \<lparr>from_block = 106, to_block = 110, uninstalled = True,
                  provider_filter = (100, 110)\<rparr>"
proof -
  have "case run_body deposit_chain example_exporter 100 1000 of
          Returned s1 fb1 w1 \<Rightarrow>
            fb1 = 111 \<and> w1 = 2500 \<and> \<not> stop s1 \<and> deposited s1 = 50 \<and>
            deposited_events_num s1 = 1 \<and> redeemed s1 = 0 \<and> redeemed_events_num s1 = 0 \<and>
            last_block_number_with_events s1 = 105 \<and>
            aggregated_data (database_manager s1) = Some (50, 1, 0, 0, 105) \<and>
            nimbus_event_filter (contracts_reader s1) =
              Some \<lparr>from_block = 106, to_block = 110, uninstalled = True,
                     provider_filter = (100, 110)\<rparr>
        | _ \<Rightarrow> False"
    by code_simp
  then show ?thesis
    by (cases "run_body deposit_chain example_exporter 100 1000") auto
qed

text \<open>
  When the chain answers both executions alike, the one deposit of the range is folded
  twice by a single call.
\<close>

lemma run_cycle_folds_range_twice:
  "case run_cycle deposit_chain deposit_chain example_exporter 100 1000 of
     Returned s' fb' w' \<Rightarrow>
       fb' = 111 \<and> w' = 2500 \<and> deposited s' = 100 \<and> deposited_events_num s' = 2 \<and>
       last_block_number_with_events s' = 105
   | _ \<Rightarrow> False"
  by code_simp

text \<open>
  C3. A call of \<^verbatim>\<open>_run\<close> from block 100 with window 1000 and all aggregates zero, where
  the chain answers the first execution of the body with the \<^verbatim>\<open>Deposited\<close> event of block
  105 and the fetch of the second execution with "query returned more than 10000
  results": the call returns block 100 and the window 900, so it ends with the range
  signal and the block it was entered with, but the deposited total is 50, the deposited
  count 1, the last block with events 105, and the checkpoint holds them. The aggregates
  were modified by a cycle that ended with the range signal.
\<close>

theorem range_signal_after_folded_execution:
  "deposited example_exporter = 0 \<and> deposited_events_num example_exporter = 0 \<and>
   last_block_number_with_events example_exporter = - 1 \<and>
   aggregated_data (database_manager example_exporter) = None \<and>
   (\<exists>s'. run_cycle deposit_chain too_many_results_chain example_exporter 100 1000 =
            Returned s' 100 900 \<and>
          deposited s' = 50 \<and> deposited_events_num s' = 1 \<and>
          last_block_number_with_events s' = 105 \<and>
          aggregated_data (database_manager s') = Some (50, 1, 0, 0, 105))"
proof -
  from run_body_deposit obtain s1 where
    s1: "run_body deposit_chain example_exporter 100 1000 = Returned s1 111 2500"
      "\<not> stop s1" "deposited s1 = 50" "deposited_events_num s1 = 1"
      "last_block_number_with_events s1 = 105"
      "aggregated_data (database_manager s1) = Some (50, 1, 0, 0, 105)"
    by blast
  obtain f where f: "nimbus_event_filter (contracts_reader s1) = Some f"
    using run_body_deposit s1(1) by auto
  have n: "get_nimbus_events too_many_results_chain 100
      (if (5000 :: int) < 100 + 1000 then 5000 else 100 + 1000) (contracts_reader s1) =
      (Inl (ValueError [[(''code'', ''-32005''),
                          (''message'', ''query returned more than 10000 results'')]]),
       (contracts_reader s1)\<lparr>nimbus_event_filter :=
          Some (uninstall (update_filter_range 100 1100 f))\<rparr>)"
    by (simp add: get_nimbus_events_def too_many_results_chain_def f get_all_entries_def
        fetch_entries_2 update_filter_range_def init_filter_def Let_def)
  have d: "decrease_range_of_blocks 1000 = Inr 900" by code_simp
  from run_cycle_range_signal [OF s1(1,2) _ _ n]
  have "run_cycle deposit_chain too_many_results_chain example_exporter 100 1000 =
      Returned (s1\<lparr>contracts_reader := (contracts_reader s1)\<lparr>nimbus_event_filter :=
          Some (uninstall (update_filter_range 100 1100 f))\<rparr>\<rparr>) 100 900"
    using d by (simp add: too_many_results_chain_def)
  with s1 show ?thesis
    by (simp add: example_exporter_def)
qed

text \<open>
  C4. When both attempts of the filter fetch fail with a \<^verbatim>\<open>ValueError\<close> that is not the
  range signal, \<^verbatim>\<open>get_all_entries\<close> returns the empty list and leaves the range of the
  filter as it was; the cycle then folds nothing and returns \<^verbatim>\<open>to_block + 1\<close>, with the
  aggregates, the checkpoint and the reward table unchanged.
\<close>

theorem stale_filter_twice_drops_range:
  assumes "filter_logs c 0 = Inl (ValueError a0)" and "\<not> range_too_big (ValueError a0)"
    and "filter_logs c 1 = Inl (ValueError a1)" and "\<not> range_too_big (ValueError a1)"
    and "fb \<le> tb"
  shows "fst (get_all_entries (filter_logs c) f) = Inr [] \<and>
         from_block (snd (get_all_entries (filter_logs c) f)) = from_block f \<and>
         to_block (snd (get_all_entries (filter_logs c) f)) = to_block f \<and>
         fst (get_and_process_aggregated_data c fb tb s) = Inr (tb + 1) \<and>
         deposited (snd (get_and_process_aggregated_data c fb tb s)) = deposited s \<and>
         deposited_events_num (snd (get_and_process_aggregated_data c fb tb s)) = deposited_events_num s \<and>
         redeemed (snd (get_and_process_aggregated_data c fb tb s)) = redeemed s \<and>
         redeemed_events_num (snd (get_and_process_aggregated_data c fb tb s)) = redeemed_events_num s \<and>
         last_block_number_with_events (snd (get_and_process_aggregated_data c fb tb s)) =
           last_block_number_with_events s \<and>
         aggregated_data (database_manager (snd (get_and_process_aggregated_data c fb tb s))) =
           aggregated_data (database_manager s) \<and>
         reward (database_manager (snd (get_and_process_aggregated_data c fb tb s))) =
           reward (database_manager s)"
proof -
  have g: "get_all_entries (filter_logs c) g = (Inr [], uninstall (init_filter (init_filter (if uninstalled g then init_filter g else g))))" for g
    using assms(1-4) by (simp add: get_all_entries_def fetch_entries_2 Let_def)
  have n: "\<exists>cr. get_nimbus_events c fb tb (contracts_reader s) = (Inr [], cr)"
    using assms(5) by (simp add: get_nimbus_events_def g new_filter_def distribute_events_def split: option.splits)
  then obtain cr where n': "get_nimbus_events c fb tb (contracts_reader s) = (Inr [], cr)" ..
  have p: "get_and_process_aggregated_data c fb tb s =
      (Inr (tb + 1), (s\<lparr>contracts_reader := cr\<rparr>)\<lparr>database_manager :=
          update_api_table (apr s) (rewards s) (losses s) (database_manager s)\<rparr>)"
    by (simp add: get_and_process_aggregated_data_def n' distribute_events_by_blocks_def)
  show ?thesis
    by (simp add: g p update_api_table_def init_filter_def uninstall_def)
qed

theorem stale_filter_twice_drops_range_witness:
  "fst (get_all_entries (filter_logs stale_chain) example_filter) = Inr [] \<and>
   fst (get_and_process_aggregated_data stale_chain 100 110 example_exporter) = Inr 111 \<and>
   deposited (snd (get_and_process_aggregated_data stale_chain 100 110 example_exporter)) = 0 \<and>
   last_block_number_with_events (snd (get_and_process_aggregated_data stale_chain 100 110 example_exporter)) = - 1"
  using stale_filter_twice_drops_range [of stale_chain
      "[[(''code'', ''-32000''), (''message'', ''filter not found'')]]"
      "[[(''code'', ''-32000''), (''message'', ''filter not found'')]]" 100 110 example_filter example_exporter]
  by (simp add: stale_chain_def example_exporter_def)

section \<open>Properties of the APR\<close>

lemma ledger_aprs_filter:
  "ledger_aprs eras mn mx rs acc =
     acc @ filter (\<lambda>a. mn \<le> a \<and> a \<le> mx) (map (entry_apr eras) rs)"
  by (induction rs arbitrary: acc) (auto simp: Let_def)

lemma setitem_fresh: "k \<notin> fst ` set d \<Longrightarrow> setitem k v d = d @ [(k, v)]"
  by (induction d) auto

lemma fold_setitem_distinct:
  "distinct (map fst xs) \<Longrightarrow> fst ` set xs \<inter> fst ` set d = {} \<Longrightarrow>
     fold (\<lambda>(l, rs) d. setitem l (g rs) d) xs d = d @ map (\<lambda>(l, rs). (l, g rs)) xs"
proof (induction xs arbitrary: d)
  case Nil
  then show ?case by simp
next
  case (Cons x xs)
  obtain l rs where x: "x = (l, rs)" by (cases x)
  from Cons.prems x have fresh: "l \<notin> fst ` set d" by auto
  have disj: "fst ` set xs \<inter> fst ` set (d @ [(l, g rs)]) = {}"
    using Cons.prems x by auto
  from Cons.prems have "distinct (map fst xs)" by simp
  from Cons.IH [OF this disj] show ?case
    by (simp add: x setitem_fresh [OF fresh])
qed

lemma fold_average_distinct:
  "distinct (map fst xs) \<Longrightarrow> fst ` set xs \<inter> fst ` set av = {} \<Longrightarrow>
     fold (\<lambda>(l, v) av. if v = [] then av else setitem l (h v) av) xs av =
       av @ map (\<lambda>(l, v). (l, h v)) (filter (\<lambda>(l, v). v \<noteq> []) xs)"
proof (induction xs arbitrary: av)
  case Nil
  then show ?case by simp
next
  case (Cons x xs)
  obtain l v where x: "x = (l, v)" by (cases x)
  from Cons.prems have dist: "distinct (map fst xs)" by simp
  show ?case
  proof (cases "v = []")
    case True
    have "fst ` set xs \<inter> fst ` set av = {}" using Cons.prems by auto
    from Cons.IH [OF dist this] True show ?thesis by (simp add: x)
  next
    case False
    from Cons.prems x have fresh: "l \<notin> fst ` set av" by auto
    have "fst ` set xs \<inter> fst ` set (av @ [(l, h v)]) = {}" using Cons.prems x by auto
    from Cons.IH [OF dist this] False show ?thesis
      by (simp add: x setitem_fresh [OF fresh])
  qed
qed

lemma apr_by_ledger_distinct:
  assumes "distinct (map fst rewards_dict)"
  shows "apr_by_ledger rewards_dict eras mn mx =
     map (\<lambda>(l, rs). (l, filter (\<lambda>a. mn \<le> a \<and> a \<le> mx) (map (entry_apr eras) rs))) rewards_dict"
  using fold_setitem_distinct [OF assms, of "[]" "\<lambda>rs. ledger_aprs eras mn mx rs []"]
  by (simp add: apr_by_ledger_def ledger_aprs_filter)

text \<open>
  C5. For a dictionary of rewards (distinct ledgers): the rates kept for a ledger are
  exactly the per-entry rates that are neither below \<^verbatim>\<open>apr_min\<close> nor above \<^verbatim>\<open>apr_max\<close>;
  the rate of an entry is amount / (balance - amount) * eras_per_day * 365 when the
  denominator is not zero (and 0 is taken otherwise); a ledger enters the average with the
  mean of its kept rates, and only when it has kept one; and when every rate of every
  ledger is out of range, the value returned is the APR passed in.
\<close>

theorem calculate_apr_excludes_out_of_range:
  assumes "distinct (map fst rewards_dict)"
  shows "apr_by_ledger rewards_dict eras mn mx =
           map (\<lambda>(l, rs). (l, filter (\<lambda>a. mn \<le> a \<and> a \<le> mx) (map (entry_apr eras) rs)))
             rewards_dict \<and>
         (\<forall>l r b blk. entry_apr eras (l, r, b, blk) =
            (if b - r \<noteq> 0 then of_int r / of_int (b - r) * of_int eras * 365 else 0)) \<and>
         averaged_apr (apr_by_ledger rewards_dict eras mn mx) =
           map (\<lambda>(l, v). (l, sum_list v / of_nat (length v)))
             (filter (\<lambda>(l, v). v \<noteq> []) (apr_by_ledger rewards_dict eras mn mx)) \<and>
         ((\<forall>(l, rs) \<in> set rewards_dict. \<forall>row \<in> set rs.
              entry_apr eras row < mn \<or> mx < entry_apr eras row) \<longrightarrow>
            calculate_apr total_apr rewards_dict eras mn mx = total_apr)"
proof (intro conjI)
  show a: "apr_by_ledger rewards_dict eras mn mx =
           map (\<lambda>(l, rs). (l, filter (\<lambda>a. mn \<le> a \<and> a \<le> mx) (map (entry_apr eras) rs)))
             rewards_dict"
    using assms by (rule apr_by_ledger_distinct)
  show "\<forall>l r b blk. entry_apr eras (l, r, b, blk) =
            (if b - r \<noteq> 0 then of_int r / of_int (b - r) * of_int eras * 365 else 0)"
    by (simp add: entry_apr_def DAYS_IN_YEAR_def)
  have "map fst (apr_by_ledger rewards_dict eras mn mx) = map fst rewards_dict"
    by (simp add: a case_prod_beta comp_def)
  with assms have d: "distinct (map fst (apr_by_ledger rewards_dict eras mn mx))" by simp
  show b: "averaged_apr (apr_by_ledger rewards_dict eras mn mx) =
           map (\<lambda>(l, v). (l, sum_list v / of_nat (length v)))
             (filter (\<lambda>(l, v). v \<noteq> []) (apr_by_ledger rewards_dict eras mn mx))"
    using fold_average_distinct [OF d, of "[]" "\<lambda>v. sum_list v / of_nat (length v)"]
    by (simp add: averaged_apr_def)
  show "(\<forall>(l, rs) \<in> set rewards_dict. \<forall>row \<in> set rs.
              entry_apr eras row < mn \<or> mx < entry_apr eras row) \<longrightarrow>
            calculate_apr total_apr rewards_dict eras mn mx = total_apr"
  proof
    assume out: "\<forall>(l, rs) \<in> set rewards_dict. \<forall>row \<in> set rs.
              entry_apr eras row < mn \<or> mx < entry_apr eras row"
    have "filter (\<lambda>(l, v). v \<noteq> []) (apr_by_ledger rewards_dict eras mn mx) = []"
      unfolding a filter_empty_conv using out by (fastforce simp: filter_empty_conv)
    then have "averaged_apr (apr_by_ledger rewards_dict eras mn mx) = []"
      by (simp add: b)
    then show "calculate_apr total_apr rewards_dict eras mn mx = total_apr"
      by (simp add: calculate_apr_def)
  qed
qed

theorem calculate_apr_excludes_out_of_range_witness:
  "distinct (map fst [(''L1'', [(''L1'', 10, 110, 1), (''L1'', - 5, 95, 2)]),
                     (''L2'', [(''L2'', 1, 14601, 1), (''L2'', 2, 2, 2)])]) \<and>
   apr_by_ledger [(''L1'', [(''L1'', 10, 110, 1), (''L1'', - 5, 95, 2)]),
                  (''L2'', [(''L2'', 1, 14601, 1), (''L2'', 2, 2, 2)])] 4 0 1 =
     [(''L1'', []), (''L2'', [1 / 10, 0])] \<and>
   averaged_apr (apr_by_ledger [(''L1'', [(''L1'', 10, 110, 1), (''L1'', - 5, 95, 2)]),
                  (''L2'', [(''L2'', 1, 14601, 1), (''L2'', 2, 2, 2)])] 4 0 1) =
     [(''L2'', 1 / 20)] \<and>
   calculate_apr 7 [(''L1'', [(''L1'', 10, 110, 1), (''L1'', - 5, 95, 2)])] 4 0 1 = 7"
proof -
  have d2: "distinct (map fst [(''L1'', [(''L1'', 10, 110, 1), (''L1'', - 5, 95, 2)]),
                     (''L2'', [(''L2'', 1 :: int, 14601 :: int, 1 :: int), (''L2'', 2, 2, 2)])])"
    by simp
  have d1: "distinct (map fst [(''L1'', [(''L1'', 10 :: int, 110 :: int, 1 :: int), (''L1'', - 5, 95, 2)])])"
    by simp
  have out: "\<forall>(l, rs) \<in> set [(''L1'', [(''L1'', 10, 110, 1), (''L1'', - 5, 95, 2)])].
      \<forall>row \<in> set rs. entry_apr 4 row < 0 \<or> 1 < entry_apr 4 row"
    by (simp add: entry_apr_def DAYS_IN_YEAR_def)
  from calculate_apr_excludes_out_of_range [OF d2, of 4 0 1 7]
    calculate_apr_excludes_out_of_range [OF d1, of 4 0 1 7] out
  show ?thesis
    by (elim conjE) (simp add: entry_apr_def DAYS_IN_YEAR_def)
qed

text \<open>
  The two rates of the example below are the same numbers when each division and
  multiplication is rounded to binary64, so the exact arithmetic of the model decides the
  bounds as the floating-point evaluation does.
\<close>

lemma scenario_D_rates_binary64:
  "to_binary64 (to_binary64 (to_binary64 (10 / 100) * 4) * 365) = 146 \<and>
   to_binary64 (to_binary64 (to_binary64 (- 5 / 100) * 4) * 365) = - 73"
  by code_simp

text \<open>
  C6. With the entries (amount 10, balance 110) and (amount -5, balance 95) of one ledger,
  4 eras per day and the bounds 0 and 1: the rates are 146 and -73, neither is kept, and
  \<^verbatim>\<open>calculate_apr\<close> returns the prior APR, whatever it is.
\<close>

theorem scenario_D_keeps_prior_apr:
  "entry_apr 4 (''L1'', 10, 110, 1) = 146 \<and>
   entry_apr 4 (''L1'', - 5, 95, 2) = - 73 \<and>
   ledger_aprs 4 0 1 [(''L1'', 10, 110, 1), (''L1'', - 5, 95, 2)] [] = [] \<and>
   calculate_apr prior [(''L1'', [(''L1'', 10, 110, 1), (''L1'', - 5, 95, 2)])] 4 0 1 = prior"
  by (simp add: entry_apr_def DAYS_IN_YEAR_def calculate_apr_def apr_by_ledger_def averaged_apr_def)

end
